theory Spec2Isabelle
  imports Complex_Main "HOL-Library.Log_Nat" "HOL-Library.Sublist"
begin

section \<open>JavaScript numbers and strings\<close>

text \<open>
  A JavaScript \<^verbatim>\<open>number\<close> is an IEEE-754 binary64 value. A finite one is modelled by the
  rational it denotes; every arithmetic operation is the exact operation followed by
  rounding to 53 significant bits, ties to even (\<open>to_double\<close>). NaN, the infinities and
  the exponent limits (overflow, subnormals) are outside the model: the numbers below are
  confidences, pixel counts and aspect ratios.
\<close>

definition ilog2 :: "rat \<Rightarrow> int" where
  "ilog2 x = (let (p, q) = quotient_of x;
                  d = bitlen p - bitlen q
              in if 2 powi d \<le> x then d else d - 1)"

definition round_half_even :: "rat \<Rightarrow> int" where
  "round_half_even q = (let f = \<lfloor>q\<rfloor>; r = q - of_int f in
     if r < 1/2 then f else if 1/2 < r then f + 1 else if even f then f else f + 1)"

definition to_double :: "rat \<Rightarrow> rat" where
  "to_double x = (if x = 0 then 0 else
     let u = 2 powi (ilog2 \<bar>x\<bar> - 52)
     in sgn x * of_int (round_half_even (\<bar>x\<bar> / u)) * u)"

definition is_double :: "rat \<Rightarrow> bool" where
  "is_double x = (to_double x = x)"

definition js_add :: "rat \<Rightarrow> rat \<Rightarrow> rat" where
  "js_add a b = to_double (a + b)"

definition js_sub :: "rat \<Rightarrow> rat \<Rightarrow> rat" where
  "js_sub a b = to_double (a - b)"

definition js_mul :: "rat \<Rightarrow> rat \<Rightarrow> rat" where
  "js_mul a b = to_double (a * b)"

definition js_div :: "rat \<Rightarrow> rat \<Rightarrow> rat" where
  "js_div a b = to_double (a / b)"

text \<open>
  Truthiness of an optional number (\<^verbatim>\<open>if (candidate.width)\<close>): \<^verbatim>\<open>undefined\<close> and \<open>0\<close>
  are falsy, every other number is truthy.
\<close>

definition truthy :: "'a::zero option \<Rightarrow> bool" where
  "truthy v = (case v of None \<Rightarrow> False | Some n \<Rightarrow> n \<noteq> 0)"

text \<open>
  Strings are byte strings. \<open>includes_str s p\<close> is \<^verbatim>\<open>s.includes(p)\<close>; \<open>toLowerCase\<close> lowers
  the ASCII letters (the URLs it is applied to are ASCII after resolution).
\<close>

definition includes_str :: "string \<Rightarrow> string \<Rightarrow> bool" where
  "includes_str s p = sublist p s"

definition lower_char :: "char \<Rightarrow> char" where
  "lower_char c = (let n = (of_char c :: nat) in
     if 65 \<le> n \<and> n \<le> 90 then char_of (n + 32) else c)"

definition toLowerCase :: "string \<Rightarrow> string" where
  "toLowerCase s = map lower_char s"

text \<open>
  \<^verbatim>\<open>Array.prototype.sort(cmp)\<close> is stable (ECMAScript 2019); for a consistent comparator
  its result is the one stable ordering, computed here by inserting from the right.
  \<open>cmp a b \<le> 0\<close> keeps \<open>a\<close> in front of \<open>b\<close>.
\<close>

fun insert_by :: "('a \<Rightarrow> 'a \<Rightarrow> rat) \<Rightarrow> 'a \<Rightarrow> 'a list \<Rightarrow> 'a list" where
  "insert_by cmp a [] = [a]"
| "insert_by cmp a (b # bs) = (if cmp a b \<le> 0 then a # b # bs else b # insert_by cmp a bs)"

definition array_sort :: "('a \<Rightarrow> 'a \<Rightarrow> rat) \<Rightarrow> 'a list \<Rightarrow> 'a list" where
  "array_sort cmp xs = foldr (insert_by cmp) xs []"

section \<open>Data model (VideoThumbnailDetector.ts, BrowserManager.ts, BannerHandler.ts)\<close>

datatype js_error = Error (message: string)

type_synonym Buffer = "nat list"

type_synonym ElementHandle = nat

record ThumbnailCandidate =
  url :: string
  source :: string
  confidence :: rat
  width :: "int option"
  height :: "int option"
  aspectRatio :: "rat option"
  "method" :: string
  element :: "string option"

datatype LogEntry =
    LogStart
  | LogStrategy nat
  | LogFound nat nat
  | LogValidating
  | LogPassed nat
  | LogSelected string rat
  | LogNoThumbnail
  | LogNoVideo
  | LogError string

record VideoDetectionResult =
  hasVideo :: bool
  thumbnail :: "ThumbnailCandidate option"
  candidates :: "ThumbnailCandidate list"
  detectionLog :: "LogEntry list"

datatype ImageFormat = png | jpeg

datatype WaitUntil = load | domcontentloaded | networkidle0 | networkidle2

record ScreenshotOptions =
  opt_width :: "int option"
  opt_height :: "int option"
  opt_format :: "ImageFormat option"
  opt_quality :: "int option"
  opt_fullPage :: "bool option"
  opt_timeout :: "int option"
  opt_waitUntil :: "WaitUntil option"
  opt_handleBanners :: "bool option"
  opt_bannerTimeout :: "int option"
  opt_customBannerSelectors :: "string list option"
  opt_injectBannerBlockingCSS :: "bool option"
  opt_detectVideoThumbnails :: "bool option"

record ScreenshotResult =
  image :: "Buffer option"
  thumbnailUrl :: "string option"
  isVideoThumbnail :: bool
  videoDetectionResult :: "VideoDetectionResult option"

record ClipRegion =
  clip_x :: int
  clip_y :: int
  clip_width :: int
  clip_height :: int

record ScreenshotArgs =
  arg_type :: ImageFormat
  arg_fullPage :: "bool option"
  arg_quality :: "int option"
  arg_clip :: "ClipRegion option"

datatype BannerAction = click | remove

record BannerPattern =
  name :: string
  selectors :: "string list"
  action :: BannerAction
  waitAfter :: "int option"

section \<open>The page capability\<close>

text \<open>
  Everything the services ask of puppeteer's \<^verbatim>\<open>Page\<close> (and of the code that
  \<^verbatim>\<open>page.evaluate\<close> runs inside the browser) is a field of this record of operations on
  an abstract browser state \<open>'w\<close>. An operation that can reject returns \<open>Inl\<close> of the
  error. The operations used while banners are dismissed return the next state, since
  they change the document and take time; the detector only reads the state.
  \<^item> \<open>Date_now\<close>, \<open>wait\<close>: \<^verbatim>\<open>Date.now()\<close> and
    \<^verbatim>\<open>await new Promise(resolve => setTimeout(resolve, ms))\<close>;
  \<^item> \<open>query_selector\<close>: \<^verbatim>\<open>page.$(selector)\<close>; \<open>query_contains css text\<close>: the
    \<^verbatim>\<open>evaluateHandle\<close> call returning the first element matching \<open>css\<close> whose text
    content includes \<open>text\<close>;
  \<^item> \<open>is_visible\<close>, \<open>scroll_into_view\<close>, \<open>element_click\<close>, \<open>element_remove\<close>,
    \<open>add_style_tag\<close>: the remaining calls of BannerHandler;
  \<^item> \<open>eval_metadata\<close> ... \<open>eval_oembed\<close>: the six extraction strategies, each one
    \<^verbatim>\<open>page.evaluate\<close> over the document (\<open>iframe_candidates\<close> catches its own errors);
  \<^item> \<open>resolve_url\<close>, \<open>image_dimensions\<close>: the two \<^verbatim>\<open>page.evaluate\<close> calls of the
    validator; a failed or timed-out image load yields \<open>(0, 0)\<close>;
  \<^item> \<open>count_matches\<close>: \<^verbatim>\<open>document.querySelectorAll(selector).length\<close>;
  \<^item> \<open>eval_video_region\<close>, \<open>screenshot\<close>, \<open>fetch_bytes\<close>: region lookup, capture, and
    the in-page \<^verbatim>\<open>fetch\<close> of the thumbnail (rejecting on a non-OK status);
  \<^item> \<open>open_page\<close>: \<^verbatim>\<open>getBrowser\<close>, \<^verbatim>\<open>newPage\<close>, viewport, user agent, timeouts and
    \<^verbatim>\<open>goto\<close>, as one step.
\<close>

record 'w Page =
  Date_now :: "'w \<Rightarrow> int"
  wait :: "int \<Rightarrow> 'w \<Rightarrow> 'w"
  query_selector :: "string \<Rightarrow> 'w \<Rightarrow> (js_error + ElementHandle option) \<times> 'w"
  query_contains :: "string \<Rightarrow> string \<Rightarrow> 'w \<Rightarrow> (js_error + ElementHandle option) \<times> 'w"
  is_visible :: "ElementHandle \<Rightarrow> 'w \<Rightarrow> (js_error + bool) \<times> 'w"
  scroll_into_view :: "ElementHandle \<Rightarrow> 'w \<Rightarrow> (js_error + unit) \<times> 'w"
  element_click :: "ElementHandle \<Rightarrow> 'w \<Rightarrow> (js_error + unit) \<times> 'w"
  element_remove :: "ElementHandle \<Rightarrow> 'w \<Rightarrow> (js_error + unit) \<times> 'w"
  add_style_tag :: "'w \<Rightarrow> (js_error + unit) \<times> 'w"
  eval_metadata :: "'w \<Rightarrow> js_error + ThumbnailCandidate list"
  eval_video_elements :: "'w \<Rightarrow> js_error + ThumbnailCandidate list"
  eval_dom :: "'w \<Rightarrow> js_error + ThumbnailCandidate list"
  eval_css_background :: "'w \<Rightarrow> js_error + ThumbnailCandidate list"
  iframe_candidates :: "'w \<Rightarrow> ThumbnailCandidate list"
  eval_oembed :: "'w \<Rightarrow> js_error + ThumbnailCandidate list"
  resolve_url :: "string \<Rightarrow> 'w \<Rightarrow> js_error + string"
  image_dimensions :: "string \<Rightarrow> 'w \<Rightarrow> js_error + int \<times> int"
  count_matches :: "'w \<Rightarrow> js_error + (string \<Rightarrow> nat)"
  eval_video_region :: "'w \<Rightarrow> js_error + ClipRegion option"
  screenshot :: "ScreenshotArgs \<Rightarrow> 'w \<Rightarrow> (js_error + Buffer) \<times> 'w"
  fetch_bytes :: "string \<Rightarrow> 'w \<Rightarrow> js_error + Buffer"
  open_page :: "string \<Rightarrow> int \<times> int \<times> int \<times> WaitUntil \<Rightarrow> js_error + 'w"

section \<open>VideoThumbnailDetector\<close>

definition MIN_THUMBNAIL_WIDTH :: int where
  "MIN_THUMBNAIL_WIDTH = 200"

definition MIN_THUMBNAIL_HEIGHT :: int where
  "MIN_THUMBNAIL_HEIGHT = 150"

definition PREFERRED_ASPECT_RATIOS :: "rat list" where
  "PREFERRED_ASPECT_RATIOS =
     [js_div 16 9, js_div 4 3, js_div 3 2, to_double (185 / 100), to_double (235 / 100)]"

definition MAX_ASPECT_RATIO_DEVIATION :: rat where
  "MAX_ASPECT_RATIO_DEVIATION = to_double (3 / 10)"

definition rejectPatterns :: "string list" where
  "rejectPatterns =
     [''icon'', ''favicon'', ''logo'', ''sprite'', ''avatar'', ''profile'',
      ''button'', ''arrow'', ''close'', ''play-button'', ''controls'']"

definition isValidThumbnail :: "ThumbnailCandidate \<Rightarrow> bool" where
  "isValidThumbnail candidate =
     (if (case width candidate of None \<Rightarrow> False
          | Some w \<Rightarrow> w \<noteq> 0 \<and> w < MIN_THUMBNAIL_WIDTH) then False
      else if (case height candidate of None \<Rightarrow> False
          | Some h \<Rightarrow> h \<noteq> 0 \<and> h < MIN_THUMBNAIL_HEIGHT) then False
      else if list_ex (\<lambda>pattern. includes_str (toLowerCase (url candidate)) pattern) rejectPatterns
        then False
      else if (case aspectRatio candidate of None \<Rightarrow> False
          | Some ar \<Rightarrow> ar \<noteq> 0 \<and>
              \<not> list_ex (\<lambda>ratio. \<bar>js_sub ar ratio\<bar> \<le> MAX_ASPECT_RATIO_DEVIATION)
                    PREFERRED_ASPECT_RATIOS
              \<and> ar < 1 / 2) then False
      else True)"

definition calculateFinalConfidence :: "ThumbnailCandidate \<Rightarrow> rat" where
  "calculateFinalConfidence candidate =
     (let c0 = confidence candidate;
          c1 = (case (width candidate, height candidate) of
                  (Some w, Some h) \<Rightarrow>
                    if w \<noteq> 0 \<and> h \<noteq> 0 then
                      (let area = js_mul (of_int w) (of_int h) in
                       if 500000 < area then js_add c0 (to_double (1 / 10))
                       else if 200000 < area then js_add c0 (to_double (5 / 100))
                       else c0)
                    else c0
                | _ \<Rightarrow> c0);
          c2 = (case aspectRatio candidate of
                  Some ar \<Rightarrow>
                    if ar \<noteq> 0 \<and> list_ex (\<lambda>ratio. \<bar>js_sub ar ratio\<bar> \<le> to_double (1 / 10))
                                      PREFERRED_ASPECT_RATIOS
                    then js_add c1 (to_double (1 / 10)) else c1
                | None \<Rightarrow> c1);
          c3 = (if includes_str (source candidate) ''video'' \<or> includes_str (source candidate) ''poster''
                then js_add c2 (to_double (1 / 10)) else c2)
      in min c3 1)"

text \<open>
  The body of the loop of \<^verbatim>\<open>validateAndScoreCandidates\<close> for one candidate: \<open>None\<close> when
  the candidate is skipped (rejected, or an error was caught), otherwise the candidate as
  the loop has rewritten it (URL, dimensions, aspect ratio, confidence).
\<close>

definition validateCandidate :: "'w Page \<Rightarrow> 'w \<Rightarrow> ThumbnailCandidate \<Rightarrow> ThumbnailCandidate option" where
  "validateCandidate page w candidate =
     (case resolve_url page (url candidate) w of
        Inl e \<Rightarrow> None
      | Inr absoluteUrl \<Rightarrow>
          (let c1 = candidate\<lparr>url := absoluteUrl\<rparr> in
           case (if \<not> truthy (width c1) \<or> \<not> truthy (height c1)
                 then (case image_dimensions page absoluteUrl w of
                         Inl e \<Rightarrow> Inl e
                       | Inr (dw, dh) \<Rightarrow> Inr (c1\<lparr>width := Some dw, height := Some dh\<rparr>))
                 else Inr c1) of
             Inl e \<Rightarrow> None
           | Inr c2 \<Rightarrow>
               (let c3 = (case (width c2, height c2) of
                            (Some w', Some h') \<Rightarrow>
                              if w' \<noteq> 0 \<and> h' \<noteq> 0
                              then c2\<lparr>aspectRatio := Some (js_div (of_int w') (of_int h'))\<rparr>
                              else c2
                          | _ \<Rightarrow> c2)
                in if isValidThumbnail c3
                   then Some (c3\<lparr>confidence := calculateFinalConfidence c3\<rparr>)
                   else None)))"

fun validateAndScoreCandidates ::
  "'w Page \<Rightarrow> 'w \<Rightarrow> ThumbnailCandidate list \<Rightarrow> ThumbnailCandidate list" where
  "validateAndScoreCandidates page w [] = []"
| "validateAndScoreCandidates page w (candidate # rest) =
     (case validateCandidate page w candidate of
        None \<Rightarrow> validateAndScoreCandidates page w rest
      | Some valid \<Rightarrow> valid # validateAndScoreCandidates page w rest)"

text \<open>
  \<^verbatim>\<open>selectBestCandidate\<close> sorts its argument in place: the second component is the array
  as the call leaves it.
\<close>

definition selectBestCandidate ::
  "ThumbnailCandidate list \<Rightarrow> ThumbnailCandidate option \<times> ThumbnailCandidate list" where
  "selectBestCandidate cands =
     (if length cands = 0 then (None, cands)
      else (let sorted_cands = array_sort (\<lambda>a b. js_sub (confidence b) (confidence a)) cands
            in (case sorted_cands of [] \<Rightarrow> None | best # _ \<Rightarrow> Some best, sorted_cands)))"

definition videoIndicators :: "string list" where
  \<open>videoIndicators =
     [''[class*="video"]'', ''[id*="video"]'',
      ''[class*="player"]'', ''[id*="player"]'',
      ''iframe[src*="youtube"]'', ''iframe[src*="vimeo"]'',
      ''iframe[src*="dailymotion"]'', ''iframe[src*="twitch"]'']\<close>

definition detectVideoPresence :: "'w Page \<Rightarrow> 'w \<Rightarrow> js_error + bool" where
  "detectVideoPresence page w =
     (case count_matches page w of
        Inl e \<Rightarrow> Inl e
      | Inr querySelectorAll \<Rightarrow>
          Inr (if 0 < querySelectorAll ''video'' then True
               else list_ex (\<lambda>selector. 0 < querySelectorAll selector) videoIndicators))"

text \<open>
  \<^verbatim>\<open>detectVideoThumbnail\<close>: the \<^verbatim>\<open>try\<close> block runs the six strategies in order, then
  validation, selection and the presence check; the first rejected step jumps to the
  \<^verbatim>\<open>catch\<close>, which returns no video, no candidates and the log so far. The log keeps
  the entries, not their wording. \<open>extractCandidates\<close> is the first half of the
  \<^verbatim>\<open>try\<close> block: it yields the array \<^verbatim>\<open>candidates\<close> and the log after strategy 6, or
  the error with the log at the strategy that rejected.
\<close>

definition detection_failed :: "LogEntry list \<Rightarrow> js_error \<Rightarrow> VideoDetectionResult" where
  "detection_failed entries e =
     \<lparr>hasVideo = False, thumbnail = None, candidates = [],
      detectionLog = entries @ [LogError (message e)]\<rparr>"

definition extractCandidates ::
  "'w Page \<Rightarrow> 'w \<Rightarrow> (LogEntry list \<times> js_error) + (ThumbnailCandidate list \<times> LogEntry list)" where
  "extractCandidates page w =
    (let log1 = [LogStart, LogStrategy 1] in
     case eval_metadata page w of Inl e \<Rightarrow> Inl (log1, e)
     | Inr metadataCandidates \<Rightarrow>
    (let log2 = log1 @ [LogFound 1 (length metadataCandidates), LogStrategy 2] in
     case eval_video_elements page w of Inl e \<Rightarrow> Inl (log2, e)
     | Inr videoCandidates \<Rightarrow>
    (let log3 = log2 @ [LogFound 2 (length videoCandidates), LogStrategy 3] in
     case eval_dom page w of Inl e \<Rightarrow> Inl (log3, e)
     | Inr domCandidates \<Rightarrow>
    (let log4 = log3 @ [LogFound 3 (length domCandidates), LogStrategy 4] in
     case eval_css_background page w of Inl e \<Rightarrow> Inl (log4, e)
     | Inr cssCandidates \<Rightarrow>
    (let log5 = log4 @ [LogFound 4 (length cssCandidates), LogStrategy 5];
         iframeCandidates = iframe_candidates page w;
         log6 = log5 @ [LogFound 5 (length iframeCandidates), LogStrategy 6] in
     case eval_oembed page w of Inl e \<Rightarrow> Inl (log6, e)
     | Inr oembedCandidates \<Rightarrow>
         Inr (metadataCandidates @ videoCandidates @ domCandidates @ cssCandidates
                @ iframeCandidates @ oembedCandidates,
              log6 @ [LogFound 6 (length oembedCandidates)]))))))"

definition detectVideoThumbnail :: "'w Page \<Rightarrow> 'w \<Rightarrow> VideoDetectionResult" where
  "detectVideoThumbnail page w =
    (case extractCandidates page w of
       Inl (entries, e) \<Rightarrow> detection_failed entries e
     | Inr (raw, entries) \<Rightarrow>
        (let log7 = entries @ [LogValidating];
             validCandidates = validateAndScoreCandidates page w raw;
             log8 = log7 @ [LogPassed (length validCandidates)];
             (bestCandidate, sortedCandidates) = selectBestCandidate validCandidates in
         case (if 0 < length raw then Inr True else detectVideoPresence page w) of
           Inl e \<Rightarrow> detection_failed log8 e
         | Inr has \<Rightarrow>
             \<lparr>hasVideo = has, thumbnail = bestCandidate, candidates = sortedCandidates,
              detectionLog = log8 @
                [case bestCandidate of
                   Some best \<Rightarrow> LogSelected (method best) (confidence best)
                 | None \<Rightarrow> if has then LogNoThumbnail else LogNoVideo]\<rparr>))"

text \<open>
  \<^verbatim>\<open>detectVideoRegionAndCrop\<close>: \<open>None\<close> is \<^verbatim>\<open>null\<close>; every error is caught inside.
  The state after the capture is returned with the result.
\<close>

definition detectVideoRegionAndCrop :: "'w Page \<Rightarrow> 'w \<Rightarrow> Buffer option \<times> 'w" where
  "detectVideoRegionAndCrop page w =
     (case eval_video_region page w of
        Inl e \<Rightarrow> (None, w)
      | Inr None \<Rightarrow> (None, w)
      | Inr (Some videoRegion) \<Rightarrow>
          if 0 < clip_width videoRegion \<and> 0 < clip_height videoRegion
          then (case screenshot page
                       \<lparr>arg_type = png, arg_fullPage = None, arg_quality = None,
                        arg_clip = Some videoRegion\<rparr> w of
                  (Inl e, w') \<Rightarrow> (None, w')
                | (Inr shot, w') \<Rightarrow> (Some shot, w'))
          else (None, w))"

section \<open>BannerHandler\<close>

text \<open>
  The catalog, in the order of the source. A character outside ASCII is written as the
  UTF-8 bytes the source file holds for it.
\<close>

definition COMMON_BANNER_PATTERNS :: "BannerPattern list" where
  \<open>COMMON_BANNER_PATTERNS =
    [
     \<lparr>name = ''Adult Site Age Verification'',
      selectors =
        [''button:contains("I am 18 or older - Enter")'',
         ''a:contains("I am 18 or older - Enter")'',
         ''button:contains("I am 18 or older")'',
         ''a:contains("I am 18 or older")'',
         ''button:contains("Enter Site")'',
         ''a:contains("Enter Site")'',
         ''button:contains("Enter")'',
         ''a:contains("Enter")'',
         ''.agegate-enter'',
         ''.age-verification-enter'',
         ''[class*="agegate"] button'',
         ''[class*="agegate"] a'',
         ''[class*="age-verification"] button'',
         ''[class*="age-verification"] a'',
         ''[href*="enter"]'',
         ''[onclick*="enter"]'',
         ''[data-action*="enter"]''],
      action = click, waitAfter = Some 3000\<rparr>,
     \<lparr>name = ''Cookie Accept All'',
      selectors =
        [''button[id*="accept"]'',
         ''button[class*="accept"]'',
         ''button:contains("Accept all")'',
         ''button:contains("Alle akzeptieren")'',
         ''button:contains("Alle Cookies akzeptieren")'',
         ''button:contains("Cookies verwenden")'',
         ''button:contains("Accepter tout")'',
         ''button:contains("Aceptar todo")'',
         ''button:contains("Accetta tutto")'',
         ''[data-testid*="accept"]'',
         ''[aria-label*="accept"]'',
         ''.cookie-accept'',
         ''#cookie-accept'',
         ''.accept-cookies'',
         ''#accept-cookies'',
         ''.consent-accept'',
         ''#consent-accept''],
      action = click, waitAfter = Some 1000\<rparr>,
     \<lparr>name = ''German Cookie Accept'',
      selectors =
        [''button:contains("Alle Cookies akzeptieren")'',
         ''button:contains("Cookies verwenden")'',
         ''button:contains("Cookies akzeptieren")'',
         ''button:contains("Alle akzeptieren")'',
         ''button:contains("Einverstanden")'',
         ''button:contains("Zustimmen")'',
         ''button:contains("Cookies zulassen")'',
         ''button:contains("Alle zulassen")'',
         ''[data-action*="accept"]:contains("Cookies")'',
         ''[onclick*="accept"]:contains("Cookies")'',
         ''.cookie-button:contains("akzeptieren")'',
         ''.consent-button:contains("akzeptieren")''],
      action = click, waitAfter = Some 1000\<rparr>,
     \<lparr>name = ''Cookie OK/Agree'',
      selectors =
        [''button:contains("OK")'',
         ''button:contains("Agree")'',
         ''button:contains("I agree")'',
         ''button:contains("Zustimmen")'',
         ''button:contains("Einverstanden")'',
         ''button:contains("D'accord")'',
         ''button:contains("De acuerdo")'',
         ''button:contains("Sono d'accordo")'',
         ''.cookie-ok'',
         ''#cookie-ok'',
         ''.agree-button'',
         ''#agree-button''],
      action = click, waitAfter = Some 1000\<rparr>,
     \<lparr>name = ''Age Verification - 18+'',
      selectors =
        [''button:contains("I am 18 or older")'',
         ''button:contains("I am 18 or older - Enter")'',
         ''button:contains("Enter")'',
         ''button:contains("Yes, I am 18+")'',
         ''button:contains("I am over 18")'',
         (''button:contains("Ich bin 18 oder '' @ [CHR 0xE2, CHR 0x88, CHR 0x9A, CHR 0xC2, CHR 0xA7] @ ''lter")''),
         ''button:contains("J'ai 18 ans ou plus")'',
         (''button:contains("Tengo 18 a'' @ [CHR 0xE2, CHR 0x88, CHR 0x9A, CHR 0xC2, CHR 0xB1] @ ''os o m'' @ [CHR 0xE2, CHR 0x88, CHR 0x9A, CHR 0xC2, CHR 0xB0] @ ''s")''),
         (''button:contains("Ho 18 anni o pi'' @ [CHR 0xE2, CHR 0x88, CHR 0x9A, CHR 0xCF, CHR 0x80] @ ''")''),
         ''a:contains("I am 18 or older")'',
         ''a:contains("I am 18 or older - Enter")'',
         ''a:contains("Enter")'',
         ''[href*="enter"]:contains("18")'',
         ''[href*="enter"]:contains("older")'',
         ''[data-testid*="age-verify"]'',
         ''[data-testid*="enter-site"]'',
         ''.age-verify-enter'',
         ''#age-verify-enter'',
         ''.enter-site'',
         ''#enter-site'',
         ''*:contains("I am 18 or older - Enter")'',
         ''*:contains("I am 18 or older")'',
         ''.agegate button'',
         ''.age-verification button'',
         ''[class*="age"] button:contains("Enter")'',
         ''[class*="age"] a:contains("Enter")''],
      action = click, waitAfter = Some 2000\<rparr>,
     \<lparr>name = ''YouTube Cookie Accept'',
      selectors =
        [''button[aria-label*="Accept the use of cookies"]'',
         ''button:contains("Alle akzeptieren")'',
         ''button:contains("Accept all")'',
         ''ytd-button-renderer button[aria-label*="Accept"]'',
         ''[data-testid="accept-button"]'',
         ''ytd-button-renderer:contains("Alle akzeptieren") button'',
         ''ytd-button-renderer:contains("Accept all") button'',
         ''c3-material-button:contains("Alle akzeptieren")'',
         ''c3-material-button:contains("Accept all")'',
         ''[role="button"]:contains("Alle akzeptieren")'',
         ''[role="button"]:contains("Accept all")'',
         ''button[jsname]:contains("Alle akzeptieren")'',
         ''button[jsname]:contains("Accept all")''],
      action = click, waitAfter = Some 1500\<rparr>,
     \<lparr>name = ''Modal Close'',
      selectors =
        [''button[aria-label="Close"]'',
         (''button[aria-label="Schlie'' @ [CHR 0xE2, CHR 0x88, CHR 0x9A, CHR 0xC3, CHR 0xBC] @ ''en"]''),
         ''button[aria-label="Fermer"]'',
         ''button[aria-label="Cerrar"]'',
         ''button[aria-label="Chiudi"]'',
         ''.modal-close'',
         ''.close-modal'',
         ''.popup-close'',
         ''.overlay-close'',
         ''[data-dismiss="modal"]''],
      action = click, waitAfter = Some 500\<rparr>,
     \<lparr>name = ''GDPR Accept'',
      selectors =
        [''button:contains("Accept and continue")'',
         ''button:contains("Akzeptieren und fortfahren")'',
         ''button:contains("Accepter et continuer")'',
         ''button:contains("Aceptar y continuar")'',
         ''button:contains("Accetta e continua")'',
         ''.gdpr-accept'',
         ''#gdpr-accept'',
         ''.privacy-accept'',
         ''#privacy-accept''],
      action = click, waitAfter = Some 1000\<rparr>,
     \<lparr>name = ''Newsletter Close'',
      selectors =
        [''button:contains("No thanks")'',
         ''button:contains("Maybe later")'',
         ''button:contains("Skip")'',
         ''button:contains("Nein danke")'',
         (''button:contains("Sp'' @ [CHR 0xE2, CHR 0x88, CHR 0x9A, CHR 0xC2, CHR 0xA7] @ ''ter")''),
         ''button:contains("Non merci")'',
         ''button:contains("Plus tard")'',
         ''button:contains("No gracias")'',
         (''button:contains("M'' @ [CHR 0xE2, CHR 0x88, CHR 0x9A, CHR 0xC2, CHR 0xB0] @ ''s tarde")''),
         ''button:contains("No grazie")'',
         (''button:contains("Pi'' @ [CHR 0xE2, CHR 0x88, CHR 0x9A, CHR 0xCF, CHR 0x80] @ '' tardi")''),
         ''.newsletter-close'',
         ''.subscription-close'',
         ''.popup-dismiss''],
      action = click, waitAfter = Some 500\<rparr>
    ]\<close>

text \<open>
  \<^verbatim>\<open>selector.match(/^([^:]+):contains\("([^"]+)"\)(.*)$/)\<close>: the base selector is the
  text before the first colon, the required text runs to the next double quote, and the
  suffix is the rest of the line. \<open>None\<close> is \<^verbatim>\<open>null\<close>.
\<close>

definition match_contains :: "string \<Rightarrow> (string \<times> string \<times> string) option" where
  \<open>match_contains selector =
     (let baseSelector = takeWhile (\<lambda>c. c \<noteq> CHR '':'') selector;
          rest1 = dropWhile (\<lambda>c. c \<noteq> CHR '':'') selector
      in if baseSelector = [] \<or> \<not> prefix '':contains("'' rest1 then None
         else (let rest2 = drop 11 rest1;
                   text = takeWhile (\<lambda>c. c \<noteq> CHR 0x22) rest2;
                   rest3 = dropWhile (\<lambda>c. c \<noteq> CHR 0x22) rest2
               in if text = [] \<or> \<not> prefix ''")'' rest3 then None
                  else (let suffix' = drop 2 rest3
                        in if list_ex (\<lambda>c. c = CHR 0x0A \<or> c = CHR 0x0D) suffix'
                              \<or> includes_str suffix' [CHR 0xE2, CHR 0x80, CHR 0xA8]
                              \<or> includes_str suffix' [CHR 0xE2, CHR 0x80, CHR 0xA9]
                           then None
                           else Some (baseSelector, text, suffix'))))\<close>

text \<open>
  The lookup that opens the body of the selector loop of \<^verbatim>\<open>handleBannerPattern\<close>: a
  selector with \<^verbatim>\<open>:contains(\<close> goes through \<^verbatim>\<open>evaluateHandle\<close> (\<^verbatim>\<open>element\<close> stays
  \<^verbatim>\<open>null\<close> when the regular expression does not match), every other selector through
  \<^verbatim>\<open>page.$\<close>.
\<close>

definition find_element ::
  "'w Page \<Rightarrow> string \<Rightarrow> 'w \<Rightarrow> (js_error + ElementHandle option) \<times> 'w" where
  "find_element page selector w =
     (if includes_str selector '':contains(''
      then (case match_contains selector of
              Some (baseSelector, text, suffix') \<Rightarrow>
                query_contains page (baseSelector @ suffix') text w
            | None \<Rightarrow> (Inr None, w))
      else query_selector page selector w)"

text \<open>
  One iteration of the selector loop of \<^verbatim>\<open>handleBannerPattern\<close>: \<open>True\<close> is
  \<^verbatim>\<open>return true\<close>, \<open>False\<close> is \<^verbatim>\<open>continue\<close> (also from the \<^verbatim>\<open>catch\<close>).
\<close>

definition try_selector :: "'w Page \<Rightarrow> BannerPattern \<Rightarrow> string \<Rightarrow> 'w \<Rightarrow> bool \<times> 'w" where
  "try_selector page pattern selector w =
     (case find_element page selector w of
        (Inl e, w1) \<Rightarrow> (False, w1)
      | (Inr None, w1) \<Rightarrow> (False, w1)
      | (Inr (Some el), w1) \<Rightarrow>
          (case is_visible page el w1 of
             (Inl e, w2) \<Rightarrow> (False, w2)
           | (Inr False, w2) \<Rightarrow> (False, w2)
           | (Inr True, w2) \<Rightarrow>
               (case action pattern of
                  click \<Rightarrow>
                    (case scroll_into_view page el w2 of
                       (Inl e, w3) \<Rightarrow> (False, w3)
                     | (Inr u, w3) \<Rightarrow>
                         (case element_click page el (wait page 200 w3) of
                            (Inl e, w4) \<Rightarrow> (False, w4)
                          | (Inr u', w4) \<Rightarrow> (True, w4)))
                | remove \<Rightarrow>
                    (case element_remove page el w2 of
                       (Inl e, w3) \<Rightarrow> (False, w3)
                     | (Inr u, w3) \<Rightarrow> (True, w3)))))"

fun try_selectors :: "'w Page \<Rightarrow> BannerPattern \<Rightarrow> string list \<Rightarrow> 'w \<Rightarrow> bool \<times> 'w" where
  "try_selectors page pattern [] w = (False, w)"
| "try_selectors page pattern (selector # rest) w =
     (case try_selector page pattern selector w of
        (True, w1) \<Rightarrow> (True, w1)
      | (False, w1) \<Rightarrow> try_selectors page pattern rest w1)"

definition handleBannerPattern :: "'w Page \<Rightarrow> BannerPattern \<Rightarrow> 'w \<Rightarrow> bool \<times> 'w" where
  "handleBannerPattern page pattern w = try_selectors page pattern (selectors pattern) w"

text \<open>
  What one pass of the \<^verbatim>\<open>while\<close> loop of \<^verbatim>\<open>handleBanners\<close> did, recorded beside the
  state: the clock reading of the loop condition, the patterns handed to
  \<^verbatim>\<open>handleBannerPattern\<close> with its result, in order, the pattern that was handled, the
  \<^verbatim>\<open>waitAfter\<close> delay that was awaited, and whether the \<^verbatim>\<open>for\<close> loop left through its
  deadline check.
\<close>

record PassTrace =
  started_at :: int
  tried :: "(BannerPattern \<times> bool) list"
  handled :: "BannerPattern option"
  waited :: "int option"
  timed_out :: bool

text \<open>
  The \<^verbatim>\<open>for (const pattern of ...)\<close> loop of one pass. \<^verbatim>\<open>handleBannerPattern\<close> catches
  every error itself, so the \<^verbatim>\<open>catch\<close> of this loop has nothing to catch.
\<close>

fun scanPatterns :: "'w Page \<Rightarrow> int \<Rightarrow> int \<Rightarrow> BannerPattern list \<Rightarrow> 'w \<Rightarrow> PassTrace \<times> 'w" where
  "scanPatterns page maxTime t0 [] w =
     (\<lparr>started_at = t0, tried = [], handled = None, waited = None, timed_out = False\<rparr>, w)"
| "scanPatterns page maxTime t0 (pattern # rest) w =
     (if maxTime \<le> Date_now page w
      then (\<lparr>started_at = t0, tried = [], handled = None, waited = None, timed_out = True\<rparr>, w)
      else (case handleBannerPattern page pattern w of
              (True, w1) \<Rightarrow>
                (if truthy (waitAfter pattern)
                 then (\<lparr>started_at = t0, tried = [(pattern, True)], handled = Some pattern,
                        waited = waitAfter pattern, timed_out = False\<rparr>,
                       (case waitAfter pattern of Some ms \<Rightarrow> wait page ms w1 | None \<Rightarrow> w1))
                 else (\<lparr>started_at = t0, tried = [(pattern, True)], handled = Some pattern,
                        waited = None, timed_out = False\<rparr>, w1))
            | (False, w1) \<Rightarrow>
                (case scanPatterns page maxTime t0 rest w1 of
                   (t, w2) \<Rightarrow> (t\<lparr>tried := (pattern, False) # tried t\<rparr>, w2))))"

datatype StopReason = NoneFound | BudgetExhausted | AttemptCap

record 'w BannerRun =
  passes :: "PassTrace list"
  bannersHandled :: nat
  attempts :: nat
  stopped_by :: StopReason
  world :: 'w

definition maxAttempts :: nat where
  "maxAttempts = 5"

text \<open>
  The \<^verbatim>\<open>while (Date.now() < maxTime && attempts < maxAttempts)\<close> loop, over any catalog.
  \<open>world\<close> of the result is the state in which the loop was left.
\<close>

function bannerLoop ::
  "'w Page \<Rightarrow> BannerPattern list \<Rightarrow> int \<Rightarrow> nat \<Rightarrow> nat \<Rightarrow> PassTrace list \<Rightarrow> 'w \<Rightarrow> 'w BannerRun" where
  "bannerLoop page catalog maxTime n handledCount done w =
     (if \<not> Date_now page w < maxTime
      then \<lparr>passes = done, bannersHandled = handledCount, attempts = n,
            stopped_by = BudgetExhausted, world = w\<rparr>
      else if \<not> n < maxAttempts
      then \<lparr>passes = done, bannersHandled = handledCount, attempts = n,
            stopped_by = AttemptCap, world = w\<rparr>
      else (case scanPatterns page maxTime (Date_now page w) catalog w of
              (t, w1) \<Rightarrow>
                (case handled t of
                   None \<Rightarrow>
                     \<lparr>passes = done @ [t], bannersHandled = handledCount, attempts = n + 1,
                      stopped_by = (if timed_out t then BudgetExhausted else NoneFound),
                      world = w1\<rparr>
                 | Some pattern \<Rightarrow>
                     bannerLoop page catalog maxTime (n + 1) (handledCount + 1) (done @ [t])
                       (wait page 500 w1))))"
  by pat_completeness auto
termination
  by (relation "measure (\<lambda>(page, catalog, maxTime, n, handledCount, done, w). maxAttempts - n)") auto

declare bannerLoop.simps [simp del]

definition bannerRun :: "'w Page \<Rightarrow> BannerPattern list \<Rightarrow> int \<Rightarrow> 'w \<Rightarrow> 'w BannerRun" where
  "bannerRun page catalog timeout w =
     (let startTime = Date_now page w;
          maxTime = startTime + timeout;
          w1 = wait page 800 w
      in bannerLoop page catalog maxTime 0 0 [] w1)"

definition handleBanners :: "'w Page \<Rightarrow> int \<Rightarrow> 'w \<Rightarrow> 'w" where
  "handleBanners page timeout w =
     wait page 500 (world (bannerRun page COMMON_BANNER_PATTERNS timeout w))"

text \<open>
  What \<^verbatim>\<open>scanPatterns\<close> leaves in the record of a pass over \<open>catalog\<close>: the patterns
  tried are an initial stretch of the catalog, in its order; none but the last of them was
  handled; a handled pattern is the last one tried, and its \<^verbatim>\<open>waitAfter\<close> (when truthy)
  is the delay awaited; a pass that handled nothing and was not cut by the deadline tried
  the whole catalog.
\<close>

definition pass_shape :: "BannerPattern list \<Rightarrow> PassTrace \<Rightarrow> bool" where
  "pass_shape catalog t =
     (prefix (map fst (tried t)) catalog
      \<and> (\<forall>x\<in>set (butlast (tried t)). \<not> snd x)
      \<and> (case handled t of
            Some p \<Rightarrow> tried t \<noteq> [] \<and> last (tried t) = (p, True) \<and> \<not> timed_out t
                       \<and> waited t = (if truthy (waitAfter p) then waitAfter p else None)
          | None \<Rightarrow> (\<forall>x\<in>set (tried t). \<not> snd x) \<and> waited t = None
                     \<and> (\<not> timed_out t \<longrightarrow> map fst (tried t) = catalog)))"

text \<open>
  The state a pass leaves, rebuilt from its record and the state in which it began: the
  patterns tried were handed to \<^verbatim>\<open>handleBannerPattern\<close> one after the other
  (\<open>after_patterns\<close>), and the delay recorded was then awaited (\<open>pass_exit\<close>). \<open>replay\<close>
  does this for a sequence of passes, with the 500 ms delay of the \<^verbatim>\<open>while\<close> loop after
  every pass that handled a banner; \<open>pass_entry\<close> is the state in which pass \<open>i\<close> of the
  sequence begins.
\<close>

definition after_patterns :: "'w Page \<Rightarrow> BannerPattern list \<Rightarrow> 'w \<Rightarrow> 'w" where
  "after_patterns page ps w = fold (\<lambda>pattern s. snd (handleBannerPattern page pattern s)) ps w"

definition pass_exit :: "'w Page \<Rightarrow> PassTrace \<Rightarrow> 'w \<Rightarrow> 'w" where
  "pass_exit page t w =
     (let w1 = after_patterns page (map fst (tried t)) w
      in case waited t of Some ms \<Rightarrow> wait page ms w1 | None \<Rightarrow> w1)"

fun replay :: "'w Page \<Rightarrow> PassTrace list \<Rightarrow> 'w \<Rightarrow> 'w" where
  "replay page [] w = w"
| "replay page (t # ts) w =
     (if handled t = None then pass_exit page t w
      else replay page ts (wait page 500 (pass_exit page t w)))"

definition pass_entry :: "'w Page \<Rightarrow> PassTrace list \<Rightarrow> 'w \<Rightarrow> nat \<Rightarrow> 'w" where
  "pass_entry page ts w i = replay page (take i ts) w"

fun handleCustomBanners :: "'w Page \<Rightarrow> string list \<Rightarrow> 'w \<Rightarrow> 'w" where
  "handleCustomBanners page [] w = w"
| "handleCustomBanners page (selector # rest) w =
     handleCustomBanners page rest
       (case query_selector page selector w of
          (Inl e, w1) \<Rightarrow> w1
        | (Inr None, w1) \<Rightarrow> w1
        | (Inr (Some el), w1) \<Rightarrow>
            (case is_visible page el w1 of
               (Inl e, w2) \<Rightarrow> w2
             | (Inr False, w2) \<Rightarrow> w2
             | (Inr True, w2) \<Rightarrow>
                 (case element_click page el w2 of
                    (Inl e, w3) \<Rightarrow> w3
                  | (Inr u, w3) \<Rightarrow> wait page 1000 w3)))"

definition injectBannerBlockingCSS :: "'w Page \<Rightarrow> 'w \<Rightarrow> 'w" where
  "injectBannerBlockingCSS page w = snd (add_style_tag page w)"

section \<open>BrowserManager\<close>

definition takeRegularScreenshot ::
  "'w Page \<Rightarrow> ImageFormat \<Rightarrow> int \<Rightarrow> bool \<Rightarrow> 'w \<Rightarrow> (js_error + Buffer) \<times> 'w" where
  "takeRegularScreenshot page format quality fullPage w =
     screenshot page
       \<lparr>arg_type = format, arg_fullPage = Some fullPage,
        arg_quality = (if format = jpeg then Some quality else None),
        arg_clip = None\<rparr> w"

definition shouldReturnUrlDirectly :: "ThumbnailCandidate \<Rightarrow> bool" where
  "shouldReturnUrlDirectly t =
     (source t = ''oEmbed'' \<or>
      source t = ''schema.org VideoObject'' \<or>
      includes_str (url t) ''thumbnail_url'' \<or>
      includes_str (url t) ''maxresdefault'' \<or>
      includes_str (url t) ''vimeocdn.com'' \<or>
      includes_str (url t) ''dailymotion.com'' \<or>
      to_double (8 / 10) \<le> confidence t)"

text \<open>
  The calls \<^verbatim>\<open>takeIntelligentScreenshot\<close> makes after detection, recorded beside its
  result: the in-page fetch of the thumbnail, \<^verbatim>\<open>detectVideoRegionAndCrop\<close> and
  \<^verbatim>\<open>takeRegularScreenshot\<close>, each with whether it produced bytes, and the direct return
  of the URL.
\<close>

datatype Step =
    ReturnedUrl
  | FetchThumbnail string bool
  | RegionCrop bool
  | RegularScreenshot bool

definition image_result ::
  "Buffer \<Rightarrow> bool \<Rightarrow> VideoDetectionResult option \<Rightarrow> ScreenshotResult" where
  "image_result finalImage isThumb detection =
     \<lparr>image = Some finalImage, thumbnailUrl = None, isVideoThumbnail = isThumb,
      videoDetectionResult = detection\<rparr>"

text \<open>
  A regular screenshot taken inside the \<^verbatim>\<open>try\<close> around detection: when it rejects, the
  \<^verbatim>\<open>catch (detectionError)\<close> takes the regular screenshot once more, and only a second
  rejection leaves the function.
\<close>

definition regular_in_try ::
  "'w Page \<Rightarrow> ImageFormat \<Rightarrow> int \<Rightarrow> bool \<Rightarrow> VideoDetectionResult \<Rightarrow> Step list \<Rightarrow> 'w
     \<Rightarrow> (js_error + ScreenshotResult) \<times> Step list" where
  "regular_in_try page format quality fullPage detection steps w =
     (case takeRegularScreenshot page format quality fullPage w of
        (Inr finalImage, w1) \<Rightarrow>
          (Inr (image_result finalImage False (Some detection)), steps @ [RegularScreenshot True])
      | (Inl detectionError, w1) \<Rightarrow>
          (case takeRegularScreenshot page format quality fullPage w1 of
             (Inr finalImage, w2) \<Rightarrow>
               (Inr (image_result finalImage False (Some detection)),
                steps @ [RegularScreenshot False, RegularScreenshot True])
           | (Inl e, w2) \<Rightarrow>
               (Inl e, steps @ [RegularScreenshot False, RegularScreenshot False])))"

definition crop_or_regular ::
  "'w Page \<Rightarrow> ImageFormat \<Rightarrow> int \<Rightarrow> bool \<Rightarrow> VideoDetectionResult \<Rightarrow> Step list \<Rightarrow> 'w
     \<Rightarrow> (js_error + ScreenshotResult) \<times> Step list" where
  "crop_or_regular page format quality fullPage detection steps w =
     (case detectVideoRegionAndCrop page w of
        (Some croppedScreenshot, w1) \<Rightarrow>
          (Inr (image_result croppedScreenshot True (Some detection)), steps @ [RegionCrop True])
      | (None, w1) \<Rightarrow>
          regular_in_try page format quality fullPage detection (steps @ [RegionCrop False]) w1)"

text \<open>The branch \<^verbatim>\<open>if (detectVideoThumbnails) { try { ... } catch { ... } }\<close>.\<close>

definition capture_with_detection ::
  "'w Page \<Rightarrow> ImageFormat \<Rightarrow> int \<Rightarrow> bool \<Rightarrow> 'w \<Rightarrow> (js_error + ScreenshotResult) \<times> Step list" where
  "capture_with_detection page format quality fullPage w =
     (let detection = detectVideoThumbnail page w in
      case thumbnail detection of
        Some t \<Rightarrow>
          if shouldReturnUrlDirectly t
          then (Inr \<lparr>image = None, thumbnailUrl = Some (url t), isVideoThumbnail = True,
                     videoDetectionResult = Some detection\<rparr>, [ReturnedUrl])
          else (case fetch_bytes page (url t) w of
                  Inr response \<Rightarrow>
                    (Inr (image_result response True (Some detection)),
                     [FetchThumbnail (url t) True])
                | Inl thumbnailError \<Rightarrow>
                    crop_or_regular page format quality fullPage detection
                      [FetchThumbnail (url t) False] w)
      | None \<Rightarrow>
          if hasVideo detection
          then crop_or_regular page format quality fullPage detection [] w
          else regular_in_try page format quality fullPage detection [] w)"

text \<open>
  The block \<^verbatim>\<open>if (handleBanners) { try { ... } catch { ... } }\<close>; none of the three
  handlers lets an error out.
\<close>

definition banner_phase :: "'w Page \<Rightarrow> bool \<Rightarrow> int \<Rightarrow> string list \<Rightarrow> 'w \<Rightarrow> 'w" where
  "banner_phase page injectCSS bannerTimeout customBannerSelectors w =
     (let w1 = (if injectCSS then injectBannerBlockingCSS page w else w);
          w2 = handleBanners page bannerTimeout w1
      in if 0 < length customBannerSelectors
         then handleCustomBanners page customBannerSelectors w2 else w2)"

definition default_to :: "'a \<Rightarrow> 'a option \<Rightarrow> 'a" where
  "default_to d v = (case v of None \<Rightarrow> d | Some a \<Rightarrow> a)"

text \<open>
  \<^verbatim>\<open>takeIntelligentScreenshot\<close>. \<open>Inl\<close> is the error thrown from the outer \<^verbatim>\<open>catch\<close>;
  the reset of the cached browser there and the closing of the page in \<^verbatim>\<open>finally\<close>
  change nothing that is returned. \<open>prepare_page\<close> is the function up to the banner
  block: it yields the state in which the capture starts.
\<close>

definition prepare_page :: "'w Page \<Rightarrow> string \<Rightarrow> ScreenshotOptions \<Rightarrow> js_error + 'w" where
  "prepare_page page target options =
     (let width' = default_to 1920 (opt_width options);
          height' = default_to 1080 (opt_height options);
          timeout = default_to 30000 (opt_timeout options);
          waitUntil = default_to domcontentloaded (opt_waitUntil options);
          handleBanners' = default_to True (opt_handleBanners options);
          bannerTimeout = default_to 5000 (opt_bannerTimeout options);
          customBannerSelectors = default_to [] (opt_customBannerSelectors options);
          injectCSS = default_to False (opt_injectBannerBlockingCSS options)
      in case open_page page target (width', height', timeout, waitUntil) of
           Inl e \<Rightarrow> Inl e
         | Inr w0 \<Rightarrow>
             (let w1 = wait page 1000 w0
              in Inr (if handleBanners'
                      then banner_phase page injectCSS bannerTimeout customBannerSelectors w1
                      else w1)))"

definition takeIntelligentScreenshot ::
  "'w Page \<Rightarrow> string \<Rightarrow> ScreenshotOptions \<Rightarrow> (js_error + ScreenshotResult) \<times> Step list" where
  "takeIntelligentScreenshot page target options =
     (let format = default_to png (opt_format options);
          quality = default_to 80 (opt_quality options);
          fullPage = default_to False (opt_fullPage options);
          detectVideoThumbnails = default_to True (opt_detectVideoThumbnails options)
      in case (case prepare_page page target options of
                 Inl e \<Rightarrow> (Inl e, [])
               | Inr w \<Rightarrow>
                   if detectVideoThumbnails
                   then capture_with_detection page format quality fullPage w
                   else (case takeRegularScreenshot page format quality fullPage w of
                           (Inr finalImage, w') \<Rightarrow>
                             (Inr (image_result finalImage False None), [RegularScreenshot True])
                         | (Inl e, w') \<Rightarrow> (Inl e, [RegularScreenshot False]))) of
          (Inl e, steps) \<Rightarrow>
            (Inl (Error (''Intelligent screenshot failed: '' @ message e)), steps)
        | (Inr result, steps) \<Rightarrow> (Inr result, steps))"

text \<open>
  The test the outer \<^verbatim>\<open>catch\<close> applies to the error before it throws it on: the message
  names a lost browser connection.
\<close>

definition browser_connection_lost :: "js_error \<Rightarrow> bool" where
  "browser_connection_lost err =
     (message err \<noteq> [] \<and>
      (includes_str (message err) ''Protocol error'' \<or>
       includes_str (message err) ''Connection closed'' \<or>
       includes_str (message err) ''Target closed'' \<or>
       includes_str (message err) ''Session closed''))"

text \<open>
  \<open>one_variant\<close>: a returned result carries either image bytes or a thumbnail URL, not
  both and not neither. \<open>plain_capture_total\<close>: the capture without a clip region never
  rejects on this page.
\<close>

definition one_variant :: "js_error + ScreenshotResult \<Rightarrow> bool" where
  "one_variant res =
     (case res of Inr r \<Rightarrow> (image r = None) \<noteq> (thumbnailUrl r = None) | Inl e \<Rightarrow> True)"

definition plain_capture_total :: "'w Page \<Rightarrow> bool" where
  "plain_capture_total page =
     (\<forall>args w. arg_clip args = None \<longrightarrow> (\<exists>bytes. fst (screenshot page args w) = Inr bytes))"

section \<open>A concrete page for running the definitions\<close>

text \<open>
  A small browser state: a clock in milliseconds and the elements now in the document
  that a selector can find (overlays, on most of the sites below), each with the CSS
  selector that finds it and its text content. Every element is visible; \<open>sticky\<close> says
  whether a click leaves the element in place. The fixed part
  of a site is the metadata candidates its document yields, the natural size of its
  images (an image that is not listed fails to load), the number of elements each
  selector matches, the video region, and whether fetching and capturing succeed.
\<close>

record DemoWorld =
  clock :: int
  overlays :: "(string \<times> string) list"
  sticky :: bool

record DemoSite =
  site_overlays :: "(string \<times> string) list"
  site_sticky :: bool
  site_metadata :: "ThumbnailCandidate list"
  site_images :: "(string \<times> int \<times> int) list"
  site_counts :: "(string \<times> nat) list"
  site_region :: "ClipRegion option"
  site_fetch_ok :: bool
  site_capture_ok :: bool
  site_reachable :: bool

fun index_where :: "('a \<Rightarrow> bool) \<Rightarrow> 'a list \<Rightarrow> nat option" where
  "index_where P [] = None"
| "index_where P (a # as) =
     (if P a then Some 0 else (case index_where P as of None \<Rightarrow> None | Some i \<Rightarrow> Some (i + 1)))"

fun drop_nth :: "nat \<Rightarrow> 'a list \<Rightarrow> 'a list" where
  "drop_nth i [] = []"
| "drop_nth 0 (a # as) = as"
| "drop_nth (Suc i) (a # as) = a # drop_nth i as"

definition tick :: "DemoWorld \<Rightarrow> DemoWorld" where
  "tick w = w\<lparr>clock := clock w + 1\<rparr>"

definition demo_page :: "DemoSite \<Rightarrow> DemoWorld Page" where
  "demo_page site =
     \<lparr>Date_now = clock,
      wait = (\<lambda>ms w. w\<lparr>clock := clock w + ms\<rparr>),
      query_selector = (\<lambda>sel w. (Inr (index_where (\<lambda>(css, txt). css = sel) (overlays w)), tick w)),
      query_contains = (\<lambda>sel text w.
         (Inr (index_where (\<lambda>(css, txt). css = sel \<and> includes_str txt text) (overlays w)), tick w)),
      is_visible = (\<lambda>el w. (Inr True, tick w)),
      scroll_into_view = (\<lambda>el w. (Inr (), tick w)),
      element_click = (\<lambda>el w.
         (Inr (), tick (if sticky w then w else w\<lparr>overlays := drop_nth el (overlays w)\<rparr>))),
      element_remove = (\<lambda>el w. (Inr (), tick (w\<lparr>overlays := drop_nth el (overlays w)\<rparr>))),
      add_style_tag = (\<lambda>w. (Inr (), tick w)),
      eval_metadata = (\<lambda>w. Inr (site_metadata site)),
      eval_video_elements = (\<lambda>w. Inr []),
      eval_dom = (\<lambda>w. Inr []),
      eval_css_background = (\<lambda>w. Inr []),
      iframe_candidates = (\<lambda>w. []),
      eval_oembed = (\<lambda>w. Inr []),
      resolve_url = (\<lambda>u w. Inr u),
      image_dimensions = (\<lambda>u w.
         Inr (case map_of (site_images site) u of None \<Rightarrow> (0, 0) | Some d \<Rightarrow> d)),
      count_matches = (\<lambda>w.
         Inr (\<lambda>sel. case map_of (site_counts site) sel of None \<Rightarrow> 0 | Some n \<Rightarrow> n)),
      eval_video_region = (\<lambda>w. Inr (site_region site)),
      screenshot = (\<lambda>args w.
         (if site_capture_ok site
          then Inr (case arg_clip args of None \<Rightarrow> [1, 2, 3] | Some r \<Rightarrow> [4, 5])
          else Inl (Error ''Target closed''), tick w)),
      fetch_bytes = (\<lambda>u w. if site_fetch_ok site then Inr [6, 7] else Inl (Error ''HTTP 404'')),
      open_page = (\<lambda>u opts.
         if site_reachable site
         then Inr \<lparr>clock = 0, overlays = site_overlays site, sticky = site_sticky site\<rparr>
         else Inl (Error ''net::ERR_NAME_NOT_RESOLVED''))\<rparr>"

definition plain_site :: DemoSite where
  "plain_site =
     \<lparr>site_overlays = [], site_sticky = False, site_metadata = [], site_images = [],
      site_counts = [], site_region = None, site_fetch_ok = True, site_capture_ok = True,
      site_reachable = True\<rparr>"

definition start_world :: "DemoSite \<Rightarrow> DemoWorld" where
  "start_world site = \<lparr>clock = 0, overlays = site_overlays site, sticky = site_sticky site\<rparr>"

definition no_options :: ScreenshotOptions where
  "no_options =
     \<lparr>opt_width = None, opt_height = None, opt_format = None, opt_quality = None,
      opt_fullPage = None, opt_timeout = None, opt_waitUntil = None, opt_handleBanners = None,
      opt_bannerTimeout = None, opt_customBannerSelectors = None,
      opt_injectBannerBlockingCSS = None, opt_detectVideoThumbnails = None\<rparr>"

definition quiet_options :: ScreenshotOptions where
  "quiet_options = no_options\<lparr>opt_handleBanners := Some False\<rparr>"

definition og_candidate :: "string \<Rightarrow> ThumbnailCandidate" where
  \<open>og_candidate u =
     \<lparr>url = u, source = ''og:image'', confidence = to_double (8 / 10), width = None,
      height = None, aspectRatio = None, method = ''metadata'',
      element = Some ''meta[property="og:image"]''\<rparr>\<close>

definition video_site :: DemoSite where
  \<open>video_site =
     plain_site\<lparr>site_metadata := [og_candidate ''https://example.com/a.jpg''],
                site_images := [(''https://example.com/a.jpg'', 1280, 720)]\<rparr>\<close>

definition broken_image_site :: DemoSite where
  \<open>broken_image_site =
     plain_site\<lparr>site_metadata := [og_candidate ''https://example.com/missing.jpg'']\<rparr>\<close>

definition demo_cands :: "ThumbnailCandidate list" where
  \<open>demo_cands =
     [(og_candidate ''https://example.com/a.jpg'')\<lparr>confidence := to_double (7 / 10)\<rparr>,
      (og_candidate ''https://example.com/b.jpg'')\<lparr>confidence := to_double (9 / 10)\<rparr>,
      (og_candidate ''https://example.com/c.jpg'')\<lparr>confidence := to_double (9 / 10)\<rparr>]\<close>

text \<open>
  Sites and pages used below: an overlay that a click dismisses and one that stays; a
  document whose only element is a heading, which no catalog selector finds;
  candidates as the metadata strategy makes them for \<^verbatim>\<open>twitter:image\<close>; a site whose
  thumbnail URL has \<^verbatim>\<open>thumbnail_url\<close> in its path; one whose only candidate is a logo;
  one whose thumbnail cannot be fetched; and one with two images of different size.
\<close>

definition cookie_site :: DemoSite where
  "cookie_site = plain_site\<lparr>site_overlays := [(''button'', ''Accept all cookies'')]\<rparr>"

definition sticky_site :: DemoSite where
  "sticky_site = cookie_site\<lparr>site_sticky := True\<rparr>"

definition article_site :: DemoSite where
  "article_site = plain_site\<lparr>site_overlays := [(''h1'', ''Welcome'')]\<rparr>"

definition catalog_names :: "string list" where
  "catalog_names =
     [''Adult Site Age Verification'', ''Cookie Accept All'', ''German Cookie Accept'',
      ''Cookie OK/Agree'', ''Age Verification - 18+'', ''YouTube Cookie Accept'',
      ''Modal Close'', ''GDPR Accept'', ''Newsletter Close'']"

definition twitter_candidate :: "string \<Rightarrow> ThumbnailCandidate" where
  \<open>twitter_candidate u =
     \<lparr>url = u, source = ''twitter:image'', confidence = to_double (7 / 10), width = None,
      height = None, aspectRatio = None, method = ''metadata'',
      element = Some ''meta[name="twitter:image"]''\<rparr>\<close>

definition thumb_url_site :: DemoSite where
  \<open>thumb_url_site =
     plain_site\<lparr>site_metadata := [twitter_candidate ''https://example.com/thumbnail_url/pic.jpg''],
                site_images := [(''https://example.com/thumbnail_url/pic.jpg'', 600, 300)]\<rparr>\<close>

definition logo_site :: DemoSite where
  \<open>logo_site =
     plain_site\<lparr>site_metadata := [og_candidate ''https://example.com/logo.png''],
                site_images := [(''https://example.com/logo.png'', 1200, 630)]\<rparr>\<close>

definition fallback_site :: DemoSite where
  \<open>fallback_site =
     plain_site\<lparr>site_metadata := [twitter_candidate ''https://example.com/pic.jpg''],
                site_images := [(''https://example.com/pic.jpg'', 600, 300)],
                site_fetch_ok := False\<rparr>\<close>

definition two_image_site :: DemoSite where
  \<open>two_image_site =
     plain_site\<lparr>site_metadata := [twitter_candidate ''https://example.com/small.jpg'',
                                   og_candidate ''https://example.com/large.jpg''],
                site_images := [(''https://example.com/small.jpg'', 600, 300),
                                (''https://example.com/large.jpg'', 1280, 720)]\<rparr>\<close>

text \<open>
  A page too tall to be captured whole: the full-page capture rejects, the capture of the
  viewport works, and everything else is as on the plain site.
\<close>

definition tall_page :: "DemoWorld Page" where
  "tall_page = (demo_page plain_site)
     \<lparr>screenshot := (\<lambda>args w.
         (if arg_fullPage args = Some True then Inl (Error ''Page is too large'')
          else Inr [1, 2, 3], tick w))\<rparr>"

definition full_page_options :: ScreenshotOptions where
  "full_page_options = quiet_options\<lparr>opt_fullPage := Some True\<rparr>"

section \<open>The specification's wording, for comparison with the code\<close>

text \<open>
  ScoringEngine as the specification words it: the base confidence, plus 0.1 when the
  pixel area exceeds 500,000 (else plus 0.05 when it exceeds 200,000), plus 0.1 when the
  aspect ratio is within 0.1 of a preferred ratio, plus 0.1 when the source contains
  "video" or "poster", capped at 1. The sum is taken in this order, in binary64.
\<close>

definition spec_final_confidence :: "rat \<Rightarrow> int \<Rightarrow> int \<Rightarrow> string \<Rightarrow> rat" where
  "spec_final_confidence base w h src =
     (let area = w * h;
          s1 = (if 500000 < area then js_add base (to_double (1 / 10))
                else if 200000 < area then js_add base (to_double (5 / 100))
                else base);
          s2 = (if w \<noteq> 0 \<and> h \<noteq> 0 \<and>
                   list_ex (\<lambda>ratio. \<bar>js_sub (js_div (of_int w) (of_int h)) ratio\<bar> \<le> to_double (1 / 10))
                     PREFERRED_ASPECT_RATIOS
                then js_add s1 (to_double (1 / 10)) else s1);
          s3 = (if includes_str src ''video'' \<or> includes_str src ''poster''
                then js_add s2 (to_double (1 / 10)) else s2)
      in min s3 1)"

text \<open>
  The orchestrator's direct-URL rule as the specification words it: the source is oEmbed
  or the structured-data VideoObject, or the confidence is at least 0.8, or the URL has
  one of the CDN thumbnail patterns of YouTube, Vimeo and Dailymotion.
\<close>

definition spec_direct_url :: "ThumbnailCandidate \<Rightarrow> bool" where
  "spec_direct_url t =
     (source t = ''oEmbed'' \<or>
      source t = ''schema.org VideoObject'' \<or>
      to_double (8 / 10) \<le> confidence t \<or>
      includes_str (url t) ''maxresdefault'' \<or>
      includes_str (url t) ''vimeocdn.com'' \<or>
      includes_str (url t) ''dailymotion.com'')"

text \<open>
  Video presence as the specification words it: a native video element exists, or an
  iframe of a known embed host exists.
\<close>

definition spec_video_presence :: "(string \<Rightarrow> nat) \<Rightarrow> bool" where
  \<open>spec_video_presence querySelectorAll =
     (0 < querySelectorAll ''video'' \<or>
      0 < querySelectorAll ''iframe[src*="youtube"]'' \<or>
      0 < querySelectorAll ''iframe[src*="vimeo"]'' \<or>
      0 < querySelectorAll ''iframe[src*="dailymotion"]'' \<or>
      0 < querySelectorAll ''iframe[src*="twitch"]'')\<close>

definition spec_video_presence_on :: "'w Page \<Rightarrow> 'w \<Rightarrow> bool" where
  "spec_video_presence_on page w =
     (case count_matches page w of
        Inl e \<Rightarrow> False
      | Inr querySelectorAll \<Rightarrow> spec_video_presence querySelectorAll)"

text \<open>
  The three priority groups the specification names, read off the names of the catalog
  entries (and the comments that head them in the source), and the order the
  specification gives them: every age-verification pattern before every cookie-consent
  pattern, every cookie-consent pattern before every modal, GDPR or newsletter pattern.
\<close>

datatype PatternGroup = AgeVerification | CookieConsent | GenericOverlay

definition spec_group :: "string \<Rightarrow> PatternGroup" where
  "spec_group pattern_name =
     (if pattern_name = ''Adult Site Age Verification'' \<or> pattern_name = ''Age Verification - 18+''
      then AgeVerification
      else if pattern_name = ''Cookie Accept All'' \<or> pattern_name = ''German Cookie Accept''
              \<or> pattern_name = ''Cookie OK/Agree'' \<or> pattern_name = ''YouTube Cookie Accept''
      then CookieConsent
      else GenericOverlay)"

fun group_rank :: "PatternGroup \<Rightarrow> nat" where
  "group_rank AgeVerification = 0"
| "group_rank CookieConsent = 1"
| "group_rank GenericOverlay = 2"

definition spec_priority_order :: "BannerPattern list \<Rightarrow> bool" where
  "spec_priority_order ps = sorted (map (\<lambda>p. group_rank (spec_group (name p))) ps)"


section \<open>Properties of the number model\<close>

subsection \<open>Rounding\<close>

lemma bitlen_rat_bounds:
  assumes "0 < (n::int)"
  shows "(2::rat) powi (bitlen n - 1) \<le> of_int n" "of_int n < (2::rat) powi (bitlen n)"
proof -
  have b: "2 ^ nat (bitlen n - 1) \<le> n" "n < 2 ^ nat (bitlen n)"
    using bitlen_bounds[OF assms] by simp_all
  have ge1: "1 \<le> bitlen n" using assms bitlen_eq_zero_iff[of n] bitlen_nonneg[of n] by linarith
  have "(of_int (2 ^ nat (bitlen n - 1)) :: rat) \<le> of_int n"
    using b(1) by (simp only: of_int_le_iff)
  then show "(2::rat) powi (bitlen n - 1) \<le> of_int n"
    using ge1 by (simp add: power_int_def)
  have "(of_int n :: rat) < of_int (2 ^ nat (bitlen n))"
    using b(2) by (simp only: of_int_less_iff)
  then show "of_int n < (2::rat) powi (bitlen n)"
    using ge1 by (simp add: power_int_def)
qed

lemma ilog2_bounds:
  assumes "0 < x"
  shows "2 powi (ilog2 x) \<le> x \<and> x < 2 powi (ilog2 x + 1)"
proof -
  obtain p q where pq: "quotient_of x = (p, q)" by force
  have q: "0 < q" using quotient_of_denom_pos[OF pq] .
  have x: "x = of_int p / of_int q" using quotient_of_div[OF pq] .
  have p: "0 < p" using assms q x by (simp add: zero_less_divide_iff)
  note P = bitlen_rat_bounds[OF p]
  note Q = bitlen_rat_bounds[OF q]
  define d where "d = bitlen p - bitlen q"
  have qpos: "(0::rat) < of_int q" using q by simp
  have up: "x < 2 powi (d + 1)"
  proof -
    have "x < 2 powi (bitlen p) / of_int q"
      unfolding x using P(2) qpos by (simp add: divide_strict_right_mono)
    also have "\<dots> \<le> 2 powi (bitlen p) / 2 powi (bitlen q - 1)"
      using Q(1) qpos by (intro divide_left_mono) (auto intro: mult_pos_pos)
    also have "\<dots> = 2 powi (bitlen p - (bitlen q - 1))"
      by (simp add: power_int_diff)
    also have "bitlen p - (bitlen q - 1) = d + 1" by (simp add: d_def)
    finally show ?thesis .
  qed
  have lo: "2 powi (d - 1) \<le> x"
  proof -
    have "2 powi (d - 1) = (2::rat) powi ((bitlen p - 1) - bitlen q)"
      by (simp add: d_def algebra_simps)
    also have "\<dots> = 2 powi (bitlen p - 1) / 2 powi (bitlen q)"
      by (rule power_int_diff) simp
    also have "\<dots> \<le> of_int p / 2 powi (bitlen q)"
      using P(1) by (simp add: divide_right_mono)
    also have "\<dots> \<le> of_int p / of_int q"
      using Q(2) qpos p by (intro divide_left_mono) (auto intro: mult_pos_pos)
    finally show ?thesis unfolding x .
  qed
  have il: "ilog2 x = (if 2 powi d \<le> x then d else d - 1)"
    by (simp add: ilog2_def pq Let_def d_def)
  show ?thesis
  proof (cases "2 powi d \<le> x")
    case True then show ?thesis using up il by simp
  next
    case False then show ?thesis using lo il by simp
  qed
qed

lemma round_half_even_floor:
  "\<lfloor>q\<rfloor> \<le> round_half_even q \<and> round_half_even q \<le> \<lfloor>q\<rfloor> + 1"
  by (simp add: round_half_even_def Let_def)

lemma round_half_even_of_int [simp]: "round_half_even (of_int n) = n"
  by (simp add: round_half_even_def Let_def)

lemma round_half_even_ge:
  assumes "of_int n \<le> q" shows "n \<le> round_half_even q"
proof -
  have "n \<le> \<lfloor>q\<rfloor>" using assms by (simp add: le_floor_iff)
  then show ?thesis using round_half_even_floor[of q] by linarith
qed

lemma round_half_even_le:
  assumes "q \<le> of_int n" shows "round_half_even q \<le> n"
proof (cases "q = of_int n")
  case True then show ?thesis by simp
next
  case False
  then have "q < of_int n" using assms by simp
  then have "\<lfloor>q\<rfloor> < n" by (simp add: floor_less_iff)
  then show ?thesis using round_half_even_floor[of q] by linarith
qed

lemma round_half_even_mono:
  assumes "a \<le> b" shows "round_half_even a \<le> round_half_even b"
proof (cases "\<lfloor>a\<rfloor> = \<lfloor>b\<rfloor>")
  case True
  then show ?thesis using assms by (auto simp: round_half_even_def Let_def)
next
  case False
  then have "\<lfloor>a\<rfloor> < \<lfloor>b\<rfloor>" using assms floor_mono[of a b] by linarith
  then show ?thesis using round_half_even_floor[of a] round_half_even_floor[of b] by linarith
qed

lemma to_double_pos_bounds:
  assumes "0 < x"
  shows "2 powi (ilog2 x) \<le> to_double x \<and> to_double x \<le> 2 powi (ilog2 x + 1)"
proof -
  define e where "e = ilog2 x"
  define u where "u = (2::rat) powi (e - 52)"
  have u: "0 < u" by (simp add: u_def)
  have b: "2 powi e \<le> x" "x < 2 powi (e + 1)" using ilog2_bounds[OF assms] by (simp_all add: e_def)
  have e1: "(2::rat) powi e = 2 ^ 52 * u" by (simp add: u_def power_int_diff)
  have e2: "(2::rat) powi (e + 1) = 2 ^ 53 * u" by (simp add: u_def power_int_diff power_int_add)
  have flx: "to_double x = of_int (round_half_even (x / u)) * u"
    using assms by (simp add: to_double_def Let_def e_def u_def)
  have "of_int (2 ^ 52) \<le> x / u" using b(1) u by (simp add: e1 pos_le_divide_eq)
  then have lo: "2 ^ 52 \<le> round_half_even (x / u)" by (rule round_half_even_ge)
  have "x / u \<le> of_int (2 ^ 53)" using b(2) u by (simp add: e2 pos_divide_le_eq)
  then have hi: "round_half_even (x / u) \<le> 2 ^ 53" by (rule round_half_even_le)
  have "(of_int (2 ^ 52) :: rat) \<le> of_int (round_half_even (x / u))"
    using lo of_int_le_iff by blast
  then have "2 ^ 52 * u \<le> of_int (round_half_even (x / u)) * u"
    using u by (intro mult_right_mono) simp_all
  moreover have "(of_int (round_half_even (x / u)) :: rat) \<le> of_int (2 ^ 53)"
    using hi of_int_le_iff by blast
  then have "of_int (round_half_even (x / u)) * u \<le> 2 ^ 53 * u"
    using u by (intro mult_right_mono) simp_all
  ultimately show ?thesis by (simp add: flx e1 e2 e_def[symmetric])
qed

lemma to_double_pos: "0 < x \<Longrightarrow> 0 < to_double x"
  using to_double_pos_bounds[of x] zero_less_power_int[of "2::rat" "ilog2 x"] by linarith

lemma to_double_minus: "to_double (- x) = - to_double x"
  by (simp add: to_double_def Let_def)

lemma to_double_zero [simp]: "to_double 0 = 0"
  by (simp add: to_double_def)

lemma to_double_mono_pos:
  assumes "0 < x" "x \<le> y"
  shows "to_double x \<le> to_double y"
proof -
  have y: "0 < y" using assms by simp
  note bx = ilog2_bounds[OF assms(1)] and by' = ilog2_bounds[OF y]
  have lt: "(2::rat) powi (ilog2 x) < 2 powi (ilog2 y + 1)" using bx by' assms by linarith
  have le: "ilog2 x \<le> ilog2 y"
  proof (rule ccontr)
    assume "\<not> ilog2 x \<le> ilog2 y"
    then have "ilog2 y + 1 \<le> ilog2 x" by simp
    then have "(2::rat) powi (ilog2 y + 1) \<le> 2 powi (ilog2 x)"
      by (intro power_int_increasing) auto
    then show False using lt by simp
  qed
  show ?thesis
  proof (cases "ilog2 x = ilog2 y")
    case True
    define u where "u = (2::rat) powi (ilog2 y - 52)"
    have u: "0 < u" by (simp add: u_def)
    have "x / u \<le> y / u" using assms u by (simp add: divide_right_mono)
    then have "round_half_even (x / u) \<le> round_half_even (y / u)" by (rule round_half_even_mono)
    then have "(of_int (round_half_even (x / u)) :: rat) * u \<le> of_int (round_half_even (y / u)) * u"
      using u by (intro mult_right_mono) auto
    then show ?thesis using assms y True by (simp add: to_double_def Let_def u_def)
  next
    case False
    then have "ilog2 x + 1 \<le> ilog2 y" using le by simp
    then have "(2::rat) powi (ilog2 x + 1) \<le> 2 powi (ilog2 y)"
      by (intro power_int_increasing) auto
    then show ?thesis using to_double_pos_bounds[OF assms(1)] to_double_pos_bounds[OF y] by linarith
  qed
qed

lemma to_double_mono:
  assumes "x \<le> y" shows "to_double x \<le> to_double y"
proof -
  consider "0 < x" | "x = 0" "y = 0" | "x = 0" "0 < y" | "x < 0" "y < 0" | "x < 0" "0 \<le> y"
    using assms by linarith
  then show ?thesis
  proof cases
    case 1 then show ?thesis using assms by (rule to_double_mono_pos)
  next
    case 2 then show ?thesis by simp
  next
    case 3 then show ?thesis using to_double_pos[of y] by simp
  next
    case 4
    then have "to_double (- y) \<le> to_double (- x)" using assms by (intro to_double_mono_pos) auto
    then show ?thesis by (simp add: to_double_minus)
  next
    case 5
    then have "0 < to_double (- x)" by (intro to_double_pos) simp
    moreover have "0 \<le> to_double y" using 5 to_double_pos[of y] by (cases "y = 0") auto
    ultimately show ?thesis by (simp add: to_double_minus)
  qed
qed

lemma to_double_le_0_iff: "to_double x \<le> 0 \<longleftrightarrow> x \<le> 0"
  using to_double_pos[of x] to_double_pos[of "- x"] to_double_minus[of x]
  by (cases "x = 0"; cases "0 < x") auto

lemma to_double_eq_0_iff: "to_double x = 0 \<longleftrightarrow> x = 0"
  using to_double_pos[of x] to_double_pos[of "- x"] to_double_minus[of x]
  by (cases "x = 0"; cases "0 < x") auto

lemma js_add_lower:
  assumes "is_double base" "base \<le> c" "0 \<le> bonus"
  shows "base \<le> js_add c bonus"
proof -
  have "to_double base \<le> to_double (c + bonus)" using assms by (intro to_double_mono) simp
  then show ?thesis using assms(1) by (simp add: is_double_def js_add_def)
qed

lemma to_double_nonneg: "0 \<le> x \<Longrightarrow> 0 \<le> to_double x"
  using to_double_mono[of 0 x] by simp

lemma to_double_500000: "to_double 500000 = 500000"
  by code_simp

lemma to_double_500001: "to_double 500001 = 500001"
  by code_simp

lemma to_double_200000: "to_double 200000 = 200000"
  by code_simp

lemma to_double_200001: "to_double 200001 = 200001"
  by code_simp

lemma area_gt_iff:
  assumes "to_double (of_int n) = of_int n" "to_double (of_int (n + 1)) = of_int (n + 1)"
  shows "of_int n < js_mul (of_int a) (of_int b) \<longleftrightarrow> n < a * b"
proof -
  have m: "js_mul (of_int a) (of_int b) = to_double (of_int (a * b))" by (simp add: js_mul_def)
  show ?thesis
  proof
    assume h: "of_int n < js_mul (of_int a) (of_int b)"
    show "n < a * b"
    proof (rule ccontr)
      assume "\<not> n < a * b"
      then have "(of_int (a * b) :: rat) \<le> of_int n" by (simp only: not_less of_int_le_iff)
      then have "to_double (of_int (a * b)) \<le> to_double (of_int n)" by (rule to_double_mono)
      then show False using h assms(1) unfolding m by linarith
    qed
  next
    assume "n < a * b"
    then have "n + 1 \<le> a * b" by simp
    then have "(of_int (n + 1) :: rat) \<le> of_int (a * b)" by (simp only: of_int_le_iff)
    then have "to_double (of_int (n + 1)) \<le> to_double (of_int (a * b))" by (rule to_double_mono)
    then have "(of_int (n + 1) :: rat) \<le> js_mul (of_int a) (of_int b)" using assms(2) by (simp only: m)
    moreover have "(of_int n :: rat) < of_int (n + 1)" by simp
    ultimately show "of_int n < js_mul (of_int a) (of_int b)" by linarith
  qed
qed


lemma area_500000: "500000 < js_mul (of_int a) (of_int b) \<longleftrightarrow> 500000 < a * b"
  using area_gt_iff[of 500000 a b] to_double_500000 to_double_500001 by simp

lemma area_200000: "200000 < js_mul (of_int a) (of_int b) \<longleftrightarrow> 200000 < a * b"
  using area_gt_iff[of 200000 a b] to_double_200000 to_double_200001 by simp

section \<open>Selection\<close>

subsection \<open>Sorting by confidence\<close>

lemma insert_by_confidence:
  "insert_by (\<lambda>a b. js_sub (confidence b) (confidence a)) c (cs :: ThumbnailCandidate list)
     = insort_key (\<lambda>c. - confidence c) c cs"
  by (induction cs) (simp_all add: js_sub_def to_double_le_0_iff)

lemma array_sort_confidence:
  "array_sort (\<lambda>a b. js_sub (confidence b) (confidence a)) (cs :: ThumbnailCandidate list)
     = sort_key (\<lambda>c. - confidence c) cs"
proof -
  have "insert_by (\<lambda>a b. js_sub (confidence b) (confidence a))
          = insort_key (\<lambda>c :: ThumbnailCandidate. - confidence c)"
    by (intro ext) (rule insert_by_confidence)
  then show ?thesis by (simp add: array_sort_def sort_key_def)
qed

lemma selectBestCandidate_sorted:
  "snd (selectBestCandidate cands) = sort_key (\<lambda>c. - confidence c) cands"
  by (cases cands) (simp_all add: selectBestCandidate_def Let_def array_sort_confidence)

lemma selectBestCandidate_head:
  "fst (selectBestCandidate cands)
     = (case sort_key (\<lambda>c. - confidence c) cands of [] \<Rightarrow> None | best # rest \<Rightarrow> Some best)"
  by (cases cands) (simp_all add: selectBestCandidate_def Let_def array_sort_confidence)

lemma first_match:
  "filter P xs \<noteq> [] \<Longrightarrow>
     \<exists>i<length xs. hd (filter P xs) = xs ! i \<and> P (xs ! i) \<and> (\<forall>j<i. \<not> P (xs ! j))"
proof (induction xs)
  case Nil
  then show ?case by simp
next
  case (Cons x xs)
  show ?case
  proof (cases "P x")
    case True
    then show ?thesis by (intro exI[of _ 0]) simp
  next
    case False
    with Cons obtain i where i: "i < length xs" "hd (filter P xs) = xs ! i" "P (xs ! i)"
      "\<forall>j<i. \<not> P (xs ! j)" by auto
    have "\<forall>j<Suc i. \<not> P ((x # xs) ! j)"
    proof (intro allI impI)
      fix j assume "j < Suc i"
      then show "\<not> P ((x # xs) ! j)" using False i(4) by (cases j) auto
    qed
    then show ?thesis using False i by (intro exI[of _ "Suc i"]) simp
  qed
qed

lemma sort_key_head_first_min:
  assumes "xs \<noteq> []"
  shows "\<exists>i<length xs. hd (sort_key f xs) = xs ! i \<and> (\<forall>j<length xs. f (xs ! i) \<le> f (xs ! j))
           \<and> (\<forall>j<i. f (xs ! i) < f (xs ! j))"
proof -
  define s where "s = sort_key f xs"
  have ne: "s \<noteq> []" using assms by (metis length_sort s_def length_0_conv)
  then obtain b rest where s: "s = b # rest" by (cases s) auto
  have srt: "sorted (map f s)" by (simp add: s_def)
  have minb: "\<forall>y\<in>set xs. f b \<le> f y"
  proof
    fix y assume "y \<in> set xs"
    then have "y \<in> set s" by (simp add: s_def)
    then show "f b \<le> f y" using srt s by auto
  qed
  have st: "filter (\<lambda>y. f y = f b) s = filter (\<lambda>y. f y = f b) xs"
    unfolding s_def by (rule sort_key_stable)
  have hdf: "hd (filter (\<lambda>y. f y = f b) xs) = b" "filter (\<lambda>y. f y = f b) xs \<noteq> []"
  proof -
    have "filter (\<lambda>y. f y = f b) xs = b # filter (\<lambda>y. f y = f b) rest"
      using st s by simp
    then show "hd (filter (\<lambda>y. f y = f b) xs) = b" "filter (\<lambda>y. f y = f b) xs \<noteq> []"
      by simp_all
  qed
  from first_match[OF hdf(2)] obtain i where i: "i < length xs"
    "hd (filter (\<lambda>y. f y = f b) xs) = xs ! i" "\<forall>j<i. f (xs ! j) \<noteq> f b" by auto
  have bi: "xs ! i = b" using i(2) hdf(1) by simp
  have "\<forall>j<length xs. f (xs ! i) \<le> f (xs ! j)" using minb bi by auto
  moreover have "\<forall>j<i. f (xs ! i) < f (xs ! j)"
  proof (intro allI impI)
    fix j assume j: "j < i"
    then have "f b \<le> f (xs ! j)" using minb i(1) by auto
    then show "f (xs ! i) < f (xs ! j)" using i(3) j bi by force
  qed
  ultimately show ?thesis using i(1) bi s by (auto simp: s_def)
qed

text \<open>
  C6. \<^verbatim>\<open>selectBestCandidate\<close> returns nothing for the empty array; for any other array
  it returns an element of maximal confidence, and of the elements that share the
  maximum the one that comes first in the array it was given.
\<close>

theorem selectBestCandidate_first_maximal:
  "fst (selectBestCandidate []) = None \<and>
   (cands \<noteq> [] \<longrightarrow>
     (\<exists>i<length cands. fst (selectBestCandidate cands) = Some (cands ! i)
        \<and> (\<forall>j<length cands. confidence (cands ! j) \<le> confidence (cands ! i))
        \<and> (\<forall>j<i. confidence (cands ! j) < confidence (cands ! i))))"
proof (intro conjI impI)
  show "fst (selectBestCandidate []) = None" by (simp add: selectBestCandidate_def)
next
  assume ne: "cands \<noteq> []"
  define f where "f = (\<lambda>c :: ThumbnailCandidate. - confidence c)"
  from sort_key_head_first_min[OF ne, of f] obtain i where i: "i < length cands"
    "hd (sort_key f cands) = cands ! i" "\<forall>j<length cands. f (cands ! i) \<le> f (cands ! j)"
    "\<forall>j<i. f (cands ! i) < f (cands ! j)" by blast
  have "sort_key f cands \<noteq> []" using ne by (metis length_sort length_0_conv)
  then have "fst (selectBestCandidate cands) = Some (cands ! i)"
    using i(2) by (cases "sort_key f cands") (auto simp: selectBestCandidate_head f_def)
  then show "\<exists>i<length cands. fst (selectBestCandidate cands) = Some (cands ! i)
        \<and> (\<forall>j<length cands. confidence (cands ! j) \<le> confidence (cands ! i))
        \<and> (\<forall>j<i. confidence (cands ! j) < confidence (cands ! i))"
    using i by (intro exI[of _ i]) (simp add: f_def)
qed

lemma detectVideoThumbnail_cases:
  "(\<exists>entries e. detectVideoThumbnail page w = detection_failed entries e)
   \<or> (\<exists>raw has entries.
        detectVideoThumbnail page w =
          \<lparr>hasVideo = has,
           thumbnail = fst (selectBestCandidate (validateAndScoreCandidates page w raw)),
           candidates = snd (selectBestCandidate (validateAndScoreCandidates page w raw)),
           detectionLog = entries\<rparr>)"
proof (cases "extractCandidates page w")
  case (Inl a)
  then show ?thesis by (cases a) (auto simp: detectVideoThumbnail_def)
next
  case (Inr b)
  obtain raw entries where b: "b = (raw, entries)" by (cases b)
  show ?thesis
  proof (cases "if 0 < length raw then Inr True else detectVideoPresence page w")
    case (Inl e)
    then show ?thesis using Inr b
      by (simp add: detectVideoThumbnail_def Let_def split_beta del: length_greater_0_conv) blast
  next
    case (Inr has)
    then show ?thesis using \<open>extractCandidates page w = Inr b\<close> b
      by (simp add: detectVideoThumbnail_def Let_def split_beta del: length_greater_0_conv) blast
  qed
qed

lemma best_is_head:
  "(case fst (selectBestCandidate v) of
      Some best \<Rightarrow> snd (selectBestCandidate v) \<noteq> [] \<and> hd (snd (selectBestCandidate v)) = best
    | None \<Rightarrow> snd (selectBestCandidate v) = [])"
proof (cases v)
  case Nil
  then show ?thesis by (simp add: selectBestCandidate_def)
next
  case (Cons a as)
  then have "sort_key (\<lambda>c. - confidence c) v \<noteq> []" by (metis length_sort length_0_conv list.distinct(1))
  then show ?thesis
    by (cases "sort_key (\<lambda>c. - confidence c) v")
       (simp_all add: selectBestCandidate_head selectBestCandidate_sorted)
qed

text \<open>
  C10. The \<open>candidates\<close> of every result of \<^verbatim>\<open>detectVideoThumbnail\<close> are in order of
  non-increasing confidence: they are the array that \<^verbatim>\<open>selectBestCandidate\<close> sorted in
  place (or the empty array of the \<^verbatim>\<open>catch\<close>), so the selected thumbnail is their head.
\<close>

theorem detection_candidates_sorted:
  "sorted_wrt (\<lambda>a b. confidence b \<le> confidence a) (candidates (detectVideoThumbnail page w))
   \<and> (case thumbnail (detectVideoThumbnail page w) of
         Some best \<Rightarrow> candidates (detectVideoThumbnail page w) \<noteq> []
                      \<and> hd (candidates (detectVideoThumbnail page w)) = best
       | None \<Rightarrow> candidates (detectVideoThumbnail page w) = [])"
proof -
  have srt: "sorted_wrt (\<lambda>a b. confidence b \<le> confidence a) (snd (selectBestCandidate v))" for v
  proof -
    have "sorted (map (\<lambda>c. - confidence c) (sort_key (\<lambda>c. - confidence c) v))" by simp
    then show ?thesis by (simp add: selectBestCandidate_sorted sorted_map)
  qed
  from detectVideoThumbnail_cases[of page w] show ?thesis
  proof (elim disjE exE)
    fix entries e assume "detectVideoThumbnail page w = detection_failed entries e"
    then show ?thesis by (simp add: detection_failed_def)
  next
    fix raw has entries
    assume "detectVideoThumbnail page w =
          \<lparr>hasVideo = has,
           thumbnail = fst (selectBestCandidate (validateAndScoreCandidates page w raw)),
           candidates = snd (selectBestCandidate (validateAndScoreCandidates page w raw)),
           detectionLog = entries\<rparr>"
    then show ?thesis
      using srt[of "validateAndScoreCandidates page w raw"]
        best_is_head[of "validateAndScoreCandidates page w raw"]
      by (simp split: option.splits)
  qed
qed

section \<open>Validation and scoring\<close>

lemma final_confidence_bounds:
  assumes d: "is_double (confidence c)" and le1: "confidence c \<le> 1"
  shows "confidence c \<le> calculateFinalConfidence c \<and> calculateFinalConfidence c \<le> 1"
proof -
  define c0 where "c0 = confidence c"
  define c1 where "c1 = (case (width c, height c) of
                  (Some w, Some h) \<Rightarrow>
                    if w \<noteq> 0 \<and> h \<noteq> 0 then
                      (let area = js_mul (of_int w) (of_int h) in
                       if 500000 < area then js_add c0 (to_double (1 / 10))
                       else if 200000 < area then js_add c0 (to_double (5 / 100))
                       else c0)
                    else c0
                | _ \<Rightarrow> c0)"
  define c2 where "c2 = (case aspectRatio c of
                  Some ar \<Rightarrow>
                    if ar \<noteq> 0 \<and> list_ex (\<lambda>ratio. \<bar>js_sub ar ratio\<bar> \<le> to_double (1 / 10))
                                      PREFERRED_ASPECT_RATIOS
                    then js_add c1 (to_double (1 / 10)) else c1
                | None \<Rightarrow> c1)"
  define c3 where "c3 = (if includes_str (source c) ''video'' \<or> includes_str (source c) ''poster''
                then js_add c2 (to_double (1 / 10)) else c2)"
  have calc: "calculateFinalConfidence c = min c3 1"
    unfolding calculateFinalConfidence_def c0_def c1_def c2_def c3_def
    by (simp only: Let_def)
  have d0: "is_double c0" using d by (simp add: c0_def)
  have b1: "c0 \<le> c1"
    using d0 by (auto simp: c1_def Let_def intro!: js_add_lower to_double_nonneg split: option.splits)
  have b2: "c0 \<le> c2"
    using d0 b1 by (auto simp: c2_def intro!: js_add_lower to_double_nonneg split: option.splits)
  have b3: "c0 \<le> c3"
    using d0 b2 by (auto simp: c3_def intro!: js_add_lower to_double_nonneg)
  show ?thesis using b3 le1 by (simp add: calc c0_def)
qed

lemma final_confidence_eq_spec:
  assumes "width c = Some w'" "height c = Some h'"
    and ar: "aspectRatio c = (if w' \<noteq> 0 \<and> h' \<noteq> 0
                              then Some (js_div (of_int w') (of_int h')) else None)"
  shows "calculateFinalConfidence c = spec_final_confidence (confidence c) w' h' (source c)"
proof (cases "w' \<noteq> 0 \<and> h' \<noteq> 0")
  case True
  then have nz: "js_div (of_int w') (of_int h') \<noteq> 0"
    by (simp add: js_div_def to_double_eq_0_iff)
  show ?thesis
    using True nz assms
    by (simp add: calculateFinalConfidence_def spec_final_confidence_def Let_def
        area_500000 area_200000)
next
  case False
  then have "w' * h' = 0" by auto
  then show ?thesis
    using False assms
    by (auto simp: calculateFinalConfidence_def spec_final_confidence_def Let_def)
qed

lemma validateCandidate_Some:
  assumes v: "validateCandidate page w c = Some c'" and noar: "aspectRatio c = None"
  shows "\<exists>c3 w' h'. c' = c3\<lparr>confidence := calculateFinalConfidence c3\<rparr> \<and> isValidThumbnail c3
           \<and> confidence c3 = confidence c \<and> source c3 = source c
           \<and> width c3 = Some w' \<and> height c3 = Some h'
           \<and> aspectRatio c3 = (if w' \<noteq> 0 \<and> h' \<noteq> 0
                                then Some (js_div (of_int w') (of_int h')) else None)"
proof -
  obtain u where u: "resolve_url page (url c) w = Inr u"
    using v by (cases "resolve_url page (url c) w") (simp_all add: validateCandidate_def)
  define c1 where "c1 = c\<lparr>url := u\<rparr>"
  define m where "m = (if \<not> truthy (width c1) \<or> \<not> truthy (height c1)
                 then (case image_dimensions page u w of
                         Inl e \<Rightarrow> Inl e
                       | Inr (dw, dh) \<Rightarrow> Inr (c1\<lparr>width := Some dw, height := Some dh\<rparr>))
                 else Inr c1)"
  define finish where "finish = (\<lambda>c2 :: ThumbnailCandidate.
     (case (width c2, height c2) of
        (Some w', Some h') \<Rightarrow>
          if w' \<noteq> 0 \<and> h' \<noteq> 0
          then c2\<lparr>aspectRatio := Some (js_div (of_int w') (of_int h'))\<rparr>
          else c2
      | _ \<Rightarrow> c2))"
  have vdef: "validateCandidate page w c =
      (case m of Inl e \<Rightarrow> None
       | Inr c2 \<Rightarrow> if isValidThumbnail (finish c2)
           then Some ((finish c2)\<lparr>confidence := calculateFinalConfidence (finish c2)\<rparr>) else None)"
    unfolding validateCandidate_def u m_def c1_def finish_def
    by (simp only: sum.case Let_def)
  obtain c2 where c2: "m = Inr c2" using v vdef by (cases m) simp_all
  have res: "isValidThumbnail (finish c2)"
    "c' = (finish c2)\<lparr>confidence := calculateFinalConfidence (finish c2)\<rparr>"
    using v vdef c2 by (simp_all split: if_splits)
  have c1f: "confidence c1 = confidence c" "source c1 = source c" "aspectRatio c1 = None"
    using noar by (simp_all add: c1_def)
  have c2f: "confidence c2 = confidence c \<and> source c2 = source c \<and> aspectRatio c2 = None
    \<and> (\<exists>w' h'. width c2 = Some w' \<and> height c2 = Some h')"
  proof (cases "\<not> truthy (width c1) \<or> \<not> truthy (height c1)")
    case True
    then have "(case image_dimensions page u w of
                         Inl e \<Rightarrow> Inl e
                       | Inr (dw, dh) \<Rightarrow> Inr (c1\<lparr>width := Some dw, height := Some dh\<rparr>)) = Inr c2"
      using c2 by (simp add: m_def)
    then obtain dw dh where "c2 = c1\<lparr>width := Some dw, height := Some dh\<rparr>"
      by (cases "image_dimensions page u w") (auto split: prod.splits)
    then show ?thesis using c1f by simp
  next
    case False
    then have "c2 = c1" using c2 by (simp add: m_def)
    moreover have "\<exists>w' h'. width c1 = Some w' \<and> height c1 = Some h'"
      using False by (auto simp: truthy_def split: option.splits)
    ultimately show ?thesis using c1f by simp
  qed
  then obtain w' h' where wh: "width c2 = Some w'" "height c2 = Some h'" by blast
  have "confidence (finish c2) = confidence c" "source (finish c2) = source c"
    "width (finish c2) = Some w'" "height (finish c2) = Some h'"
    "aspectRatio (finish c2) = (if w' \<noteq> 0 \<and> h' \<noteq> 0
                       then Some (js_div (of_int w') (of_int h')) else None)"
    using c2f wh by (simp_all add: finish_def)
  then show ?thesis using res by blast
qed

lemma validated_min_size:
  assumes "validateCandidate page w c = Some c'" "aspectRatio c = None"
  shows "\<exists>w' h'. width c' = Some w' \<and> height c' = Some h'
           \<and> (w' = 0 \<or> 200 \<le> w') \<and> (h' = 0 \<or> 150 \<le> h')"
proof -
  from validateCandidate_Some[OF assms] obtain c3 w' h' where
    c3: "c' = c3\<lparr>confidence := calculateFinalConfidence c3\<rparr>" "isValidThumbnail c3"
      "width c3 = Some w'" "height c3 = Some h'" by blast
  have "(w' = 0 \<or> 200 \<le> w') \<and> (h' = 0 \<or> 150 \<le> h')"
    using c3(2-4)
    by (auto simp: isValidThumbnail_def MIN_THUMBNAIL_WIDTH_def MIN_THUMBNAIL_HEIGHT_def
        split: if_splits)
  then show ?thesis using c3 by simp
qed

text \<open>
  C5. A candidate that \<^verbatim>\<open>validateAndScoreCandidates\<close> keeps (one that an extractor made,
  so without an aspect ratio of its own and with a base confidence that is a number not
  above 1) leaves with the confidence the specification's formula gives for its base
  confidence, its dimensions and its source; that confidence is at most 1 and at least
  the base confidence.
\<close>

theorem final_confidence_spec:
  assumes "validateCandidate page w c = Some c'" "aspectRatio c = None"
    "is_double (confidence c)" "confidence c \<le> 1"
  shows "(\<exists>w' h'. width c' = Some w' \<and> height c' = Some h'
            \<and> confidence c' = spec_final_confidence (confidence c) w' h' (source c))
         \<and> confidence c' \<le> 1 \<and> confidence c \<le> confidence c'"
proof -
  from validateCandidate_Some[OF assms(1,2)] obtain c3 w' h' where
    c3: "c' = c3\<lparr>confidence := calculateFinalConfidence c3\<rparr>"
      "confidence c3 = confidence c" "source c3 = source c"
      "width c3 = Some w'" "height c3 = Some h'"
      "aspectRatio c3 = (if w' \<noteq> 0 \<and> h' \<noteq> 0
                         then Some (js_div (of_int w') (of_int h')) else None)" by blast
  have eq: "confidence c' = spec_final_confidence (confidence c) w' h' (source c)"
    using final_confidence_eq_spec[OF c3(4,5,6)] c3(1,2,3) by simp
  have bd: "confidence c3 \<le> calculateFinalConfidence c3 \<and> calculateFinalConfidence c3 \<le> 1"
    using final_confidence_bounds[of c3] assms(3,4) c3(2) by simp
  show ?thesis using eq bd c3 by auto
qed

section \<open>The banner loop\<close>

subsection \<open>One pass over the catalog\<close>

lemma scanPatterns_trace:
  assumes "scanPatterns page maxTime t0 ps w = (t, w')"
  shows "prefix (map fst (tried t)) ps
       \<and> started_at t = t0
       \<and> (\<forall>x\<in>set (butlast (tried t)). \<not> snd x)
       \<and> (case handled t of
             Some p \<Rightarrow> tried t \<noteq> [] \<and> last (tried t) = (p, True) \<and> \<not> timed_out t
                        \<and> waited t = (if truthy (waitAfter p) then waitAfter p else None)
           | None \<Rightarrow> (\<forall>x\<in>set (tried t). \<not> snd x) \<and> waited t = None
                      \<and> (if timed_out t then maxTime \<le> Date_now page w'
                          else map fst (tried t) = ps))"
  using assms
proof (induction ps arbitrary: w t w')
  case Nil
  then show ?case by auto
next
  case (Cons p ps)
  show ?case
  proof (cases "maxTime \<le> Date_now page w")
    case True
    then show ?thesis using Cons.prems by auto
  next
    case False
    obtain ok w1 where h: "handleBannerPattern page p w = (ok, w1)" by (cases "handleBannerPattern page p w")
    show ?thesis
    proof (cases ok)
      case True
      then show ?thesis using Cons.prems False h by (auto split: if_splits)
    next
      case no: False
      obtain t2 w2 where r: "scanPatterns page maxTime t0 ps w1 = (t2, w2)"
        by (cases "scanPatterns page maxTime t0 ps w1")
      have t: "t = t2\<lparr>tried := (p, False) # tried t2\<rparr>" "w' = w2"
        using Cons.prems False h no r by auto
      note ih = Cons.IH[OF r]
      have bl: "\<forall>x\<in>set (butlast ((p, False) # tried t2)). \<not> snd x"
        using ih by (cases "tried t2") auto
      show ?thesis
      proof (cases "handled t2")
        case None
        then show ?thesis using ih t bl by (auto split: if_splits)
      next
        case (Some q)
        then show ?thesis using ih t bl by auto
      qed
    qed
  qed
qed

lemma one_success_at_most:
  assumes "\<forall>x\<in>set (butlast xs). \<not> snd x"
  shows "length (filter snd xs) \<le> 1"
proof (cases xs rule: rev_cases)
  case Nil
  then show ?thesis by simp
next
  case (snoc ys y)
  then have "filter snd ys = []" using assms by (auto simp: filter_empty_conv)
  then show ?thesis using snoc by simp
qed

lemma scanPatterns_shape:
  assumes "scanPatterns page maxTime t0 ps w = (t, w')"
  shows "pass_shape ps t" "started_at t = t0" "timed_out t \<Longrightarrow> maxTime \<le> Date_now page w'"
  using scanPatterns_trace[OF assms]
  by (auto simp: pass_shape_def split: option.splits if_splits)

lemma bannerLoop_trace:
  "\<exists>added. passes (bannerLoop page catalog maxTime n k done w) = done @ added
     \<and> attempts (bannerLoop page catalog maxTime n k done w) = n + length added
     \<and> bannersHandled (bannerLoop page catalog maxTime n k done w)
          = k + length (filter (\<lambda>t. handled t \<noteq> None) added)
     \<and> (added \<noteq> [] \<longrightarrow> n + length added \<le> maxAttempts)
     \<and> (\<forall>t\<in>set added. started_at t < maxTime \<and> pass_shape catalog t)
     \<and> (\<forall>t\<in>set (butlast added). handled t \<noteq> None)
     \<and> (case stopped_by (bannerLoop page catalog maxTime n k done w) of
          NoneFound \<Rightarrow> added \<noteq> [] \<and> handled (last added) = None \<and> \<not> timed_out (last added)
        | BudgetExhausted \<Rightarrow> maxTime \<le> Date_now page (world (bannerLoop page catalog maxTime n k done w))
        | AttemptCap \<Rightarrow> maxAttempts \<le> n + length added \<and> (\<forall>t\<in>set added. handled t \<noteq> None))"
proof (induction page catalog maxTime n k "done" w rule: bannerLoop.induct)
  case (1 page catalog maxTime n k "done" w)
  let ?r = "bannerLoop page catalog maxTime n k done w"
  note unfold = bannerLoop.simps[of page catalog maxTime n k "done" w]
  show ?case
  proof (cases "Date_now page w < maxTime")
    case False
    then have "?r = \<lparr>passes = done, bannersHandled = k, attempts = n,
            stopped_by = BudgetExhausted, world = w\<rparr>" by (subst unfold) simp
    then show ?thesis using False by (intro exI[of _ "[]"]) simp
  next
    case time: True
    show ?thesis
    proof (cases "n < maxAttempts")
      case False
      then have "?r = \<lparr>passes = done, bannersHandled = k, attempts = n,
            stopped_by = AttemptCap, world = w\<rparr>" using time by (subst unfold) simp
      then show ?thesis using False by (intro exI[of _ "[]"]) simp
    next
      case cap: True
      obtain t w1 where sc: "scanPatterns page maxTime (Date_now page w) catalog w = (t, w1)"
        by (cases "scanPatterns page maxTime (Date_now page w) catalog w")
      note sh = scanPatterns_shape[OF sc]
      show ?thesis
      proof (cases "handled t")
        case None
        then have r: "?r = \<lparr>passes = done @ [t], bannersHandled = k, attempts = n + 1,
            stopped_by = (if timed_out t then BudgetExhausted else NoneFound), world = w1\<rparr>"
          using time cap sc by (subst unfold) simp
        show ?thesis
          using r None sh time cap by (intro exI[of _ "[t]"]) (auto simp: maxAttempts_def)
      next
        case (Some p)
        let ?r' = "bannerLoop page catalog maxTime (n + 1) (k + 1) (done @ [t]) (wait page 500 w1)"
        have r: "?r = ?r'" using time cap sc Some by (subst unfold) simp
        from "1.IH"[OF _ _ sc[symmetric] Some] time cap
        obtain added where a: "passes ?r' = (done @ [t]) @ added"
          "attempts ?r' = (n + 1) + length added"
          "bannersHandled ?r' = (k + 1) + length (filter (\<lambda>t. handled t \<noteq> None) added)"
          "added \<noteq> [] \<longrightarrow> (n + 1) + length added \<le> maxAttempts"
          "\<forall>t\<in>set added. started_at t < maxTime \<and> pass_shape catalog t"
          "\<forall>t\<in>set (butlast added). handled t \<noteq> None"
          "case stopped_by ?r' of
            NoneFound \<Rightarrow> added \<noteq> [] \<and> handled (last added) = None \<and> \<not> timed_out (last added)
          | BudgetExhausted \<Rightarrow> maxTime \<le> Date_now page (world ?r')
          | AttemptCap \<Rightarrow> maxAttempts \<le> (n + 1) + length added \<and> (\<forall>t\<in>set added. handled t \<noteq> None)"
          by auto
        have bl: "\<forall>u\<in>set (butlast (t # added)). handled u \<noteq> None"
          using a(6) Some by (cases added) auto
        show ?thesis
          unfolding r
          using a(1-5) bl a(7) Some sh time cap
          by (intro exI[of _ "t # added"]) (auto split: StopReason.splits)
      qed
    qed
  qed
qed

subsection \<open>The state a pass leaves\<close>

lemma after_patterns_Nil: "after_patterns page [] w = w"
  by (simp add: after_patterns_def)

lemma after_patterns_Cons:
  "after_patterns page (p # ps) w = after_patterns page ps (snd (handleBannerPattern page p w))"
  by (simp add: after_patterns_def)

lemma scanPatterns_state:
  assumes "scanPatterns page maxTime t0 ps w = (t, w')"
  shows "w' = pass_exit page t w
       \<and> (\<forall>j<length (tried t).
             snd (tried t ! j)
               = fst (handleBannerPattern page (fst (tried t ! j))
                        (after_patterns page (map fst (take j (tried t))) w)))"
  using assms
proof (induction ps arbitrary: w t w')
  case Nil
  then show ?case by (auto simp: pass_exit_def after_patterns_Nil)
next
  case (Cons p ps)
  show ?case
  proof (cases "maxTime \<le> Date_now page w")
    case True
    then show ?thesis using Cons.prems by (auto simp: pass_exit_def after_patterns_Nil)
  next
    case False
    obtain ok w1 where h: "handleBannerPattern page p w = (ok, w1)"
      by (cases "handleBannerPattern page p w")
    show ?thesis
    proof (cases ok)
      case True
      then show ?thesis using Cons.prems False h
        by (auto simp: pass_exit_def after_patterns_Nil after_patterns_Cons truthy_def
                 split: if_splits option.splits)
    next
      case no: False
      obtain t2 w2 where r: "scanPatterns page maxTime t0 ps w1 = (t2, w2)"
        by (cases "scanPatterns page maxTime t0 ps w1")
      have t: "t = t2\<lparr>tried := (p, False) # tried t2\<rparr>" "w' = w2"
        using Cons.prems False h no r by auto
      note ih = Cons.IH[OF r]
      have e: "pass_exit page t w = pass_exit page t2 w1"
        using t h by (simp add: pass_exit_def after_patterns_Cons)
      have j: "snd (tried t ! j)
               = fst (handleBannerPattern page (fst (tried t ! j))
                        (after_patterns page (map fst (take j (tried t))) w))"
        if "j < length (tried t)" for j
      proof (cases j)
        case 0
        then show ?thesis using t h no by (simp add: after_patterns_Nil)
      next
        case (Suc j')
        then have "j' < length (tried t2)" using that t by simp
        then show ?thesis using ih Suc t h by (simp add: after_patterns_Cons)
      qed
      show ?thesis using e ih t j by simp
    qed
  qed
qed

lemma bannerLoop_states:
  "\<exists>added. passes (bannerLoop page catalog maxTime n k done w) = done @ added
     \<and> world (bannerLoop page catalog maxTime n k done w) = replay page added w
     \<and> (\<forall>i<length added. started_at (added ! i) = Date_now page (replay page (take i added) w))
     \<and> (\<forall>i<length added. \<forall>j<length (tried (added ! i)).
           snd (tried (added ! i) ! j)
             = fst (handleBannerPattern page (fst (tried (added ! i) ! j))
                      (after_patterns page (map fst (take j (tried (added ! i))))
                         (replay page (take i added) w))))"
proof (induction page catalog maxTime n k "done" w rule: bannerLoop.induct)
  case (1 page catalog maxTime n k "done" w)
  let ?r = "bannerLoop page catalog maxTime n k done w"
  note unfold = bannerLoop.simps[of page catalog maxTime n k "done" w]
  show ?case
  proof (cases "Date_now page w < maxTime")
    case False
    then have "?r = \<lparr>passes = done, bannersHandled = k, attempts = n,
            stopped_by = BudgetExhausted, world = w\<rparr>" by (subst unfold) simp
    then show ?thesis by (intro exI[of _ "[]"]) simp
  next
    case time: True
    show ?thesis
    proof (cases "n < maxAttempts")
      case False
      then have "?r = \<lparr>passes = done, bannersHandled = k, attempts = n,
            stopped_by = AttemptCap, world = w\<rparr>" using time by (subst unfold) simp
      then show ?thesis by (intro exI[of _ "[]"]) simp
    next
      case cap: True
      obtain t w1 where sc: "scanPatterns page maxTime (Date_now page w) catalog w = (t, w1)"
        by (cases "scanPatterns page maxTime (Date_now page w) catalog w")
      have t0: "started_at t = Date_now page w" using scanPatterns_shape(2)[OF sc] .
      from scanPatterns_state[OF sc]
      have st: "w1 = pass_exit page t w"
        "\<forall>j<length (tried t). snd (tried t ! j)
               = fst (handleBannerPattern page (fst (tried t ! j))
                        (after_patterns page (map fst (take j (tried t))) w))"
        by simp_all
      show ?thesis
      proof (cases "handled t")
        case None
        then have r: "?r = \<lparr>passes = done @ [t], bannersHandled = k, attempts = n + 1,
            stopped_by = (if timed_out t then BudgetExhausted else NoneFound), world = w1\<rparr>"
          using time cap sc by (subst unfold) simp
        show ?thesis
          using r None st t0 by (intro exI[of _ "[t]"]) simp
      next
        case (Some p)
        let ?w' = "wait page 500 w1"
        let ?r' = "bannerLoop page catalog maxTime (n + 1) (k + 1) (done @ [t]) ?w'"
        have r: "?r = ?r'" using time cap sc Some by (subst unfold) simp
        from "1.IH"[OF _ _ sc[symmetric] Some] time cap
        obtain added where a: "passes ?r' = (done @ [t]) @ added"
          "world ?r' = replay page added ?w'"
          "\<forall>i<length added. started_at (added ! i) = Date_now page (replay page (take i added) ?w')"
          "\<forall>i<length added. \<forall>j<length (tried (added ! i)).
             snd (tried (added ! i) ! j)
               = fst (handleBannerPattern page (fst (tried (added ! i) ! j))
                        (after_patterns page (map fst (take j (tried (added ! i))))
                           (replay page (take i added) ?w')))"
          by auto
        have w: "replay page (t # added) w = replay page added ?w'"
          using Some st(1) by simp
        have loc: "snd (tried ((t # added) ! i) ! j)
               = fst (handleBannerPattern page (fst (tried ((t # added) ! i) ! j))
                        (after_patterns page (map fst (take j (tried ((t # added) ! i))))
                           (replay page (take i (t # added)) w)))"
          if "i < length (t # added)" "j < length (tried ((t # added) ! i))" for i j
        proof (cases i)
          case 0
          then show ?thesis using st(2) that by simp
        next
          case (Suc i')
          then have "i' < length added" "j < length (tried (added ! i'))" using that by simp_all
          then show ?thesis using a(4) Suc Some st(1) by simp
        qed
        have sa: "started_at ((t # added) ! i) = Date_now page (replay page (take i (t # added)) w)"
          if "i < length (t # added)" for i
        proof (cases i)
          case 0
          then show ?thesis using t0 by simp
        next
          case (Suc i')
          then have "i' < length added" using that by simp
          then show ?thesis using a(3) Suc Some st(1) by simp
        qed
        show ?thesis
          unfolding r using a(1,2) w loc sa
          by (intro exI[of _ "t # added"]) simp
      qed
    qed
  qed
qed

subsection \<open>The loop\<close>

lemma bannerRun_pass_shape:
  assumes "t \<in> set (passes (bannerRun page catalog timeout w))"
  shows "pass_shape catalog t"
proof -
  from bannerLoop_trace[of page catalog "Date_now page w + timeout" 0 0 "[]" "wait page 800 w"]
  obtain added where "passes (bannerLoop page catalog (Date_now page w + timeout) 0 0 []
        (wait page 800 w)) = [] @ added"
    "\<forall>t\<in>set added. started_at t < Date_now page w + timeout \<and> pass_shape catalog t"
    by blast
  then show ?thesis using assms by (simp add: bannerRun_def Let_def)
qed

lemma try_selector_no_element:
  assumes "\<forall>el. fst (find_element page sel w) \<noteq> Inr (Some el)"
  shows "try_selector page p sel w = (False, snd (find_element page sel w))"
proof -
  obtain res w1 where f: "find_element page sel w = (res, w1)"
    by (cases "find_element page sel w")
  then have "\<forall>el. res \<noteq> Inr (Some el)" using assms by simp
  then show ?thesis using f
    by (cases res) (auto simp: try_selector_def split: option.splits)
qed

lemma try_selectors_no_element:
  assumes inv: "\<forall>selector\<in>set sels. \<forall>s. I s \<longrightarrow>
              I (snd (find_element page selector s))
              \<and> (\<forall>el. fst (find_element page selector s) \<noteq> Inr (Some el))"
    and "I w"
  shows "\<not> fst (try_selectors page p sels w) \<and> I (snd (try_selectors page p sels w))"
  using assms
proof (induction sels arbitrary: w)
  case Nil
  then show ?case by simp
next
  case (Cons s sels)
  have ne: "\<forall>el. fst (find_element page s w) \<noteq> Inr (Some el)"
    and i1: "I (snd (find_element page s w))"
    using Cons.prems by simp_all
  have t: "try_selector page p s w = (False, snd (find_element page s w))"
    using try_selector_no_element[OF ne] .
  have "\<forall>selector\<in>set sels. \<forall>s. I s \<longrightarrow>
              I (snd (find_element page selector s))
              \<and> (\<forall>el. fst (find_element page selector s) \<noteq> Inr (Some el))"
    using Cons.prems(1) by simp
  from Cons.IH[OF this i1] show ?case using t by simp
qed

lemma scanPatterns_no_element:
  assumes inv: "\<forall>p\<in>set ps. \<forall>selector\<in>set (selectors p). \<forall>s. I s \<longrightarrow>
              I (snd (find_element page selector s))
              \<and> (\<forall>el. fst (find_element page selector s) \<noteq> Inr (Some el))"
    and "I w"
  shows "handled (fst (scanPatterns page maxTime t0 ps w)) = None"
  using assms
proof (induction ps arbitrary: w)
  case Nil
  then show ?case by simp
next
  case (Cons p ps)
  obtain b w1 where h: "handleBannerPattern page p w = (b, w1)"
    by (cases "handleBannerPattern page p w")
  have "\<forall>selector\<in>set (selectors p). \<forall>s. I s \<longrightarrow>
              I (snd (find_element page selector s))
              \<and> (\<forall>el. fst (find_element page selector s) \<noteq> Inr (Some el))"
    using Cons.prems(1) by simp
  from try_selectors_no_element[OF this Cons.prems(2), of p]
  have b: "b = False" "I w1" using h by (simp_all add: handleBannerPattern_def)
  have "\<forall>p\<in>set ps. \<forall>selector\<in>set (selectors p). \<forall>s. I s \<longrightarrow>
              I (snd (find_element page selector s))
              \<and> (\<forall>el. fst (find_element page selector s) \<noteq> Inr (Some el))"
    using Cons.prems(1) by simp
  from Cons.IH[OF this b(2)] show ?case using h b(1) by (simp add: split_beta)
qed

lemma bannerRun_no_pass:
  assumes "Date_now page w + timeout \<le> Date_now page (wait page 800 w)"
  shows "bannerRun page catalog timeout w =
           \<lparr>passes = [], bannersHandled = 0, attempts = 0, stopped_by = BudgetExhausted,
            world = wait page 800 w\<rparr>"
  using assms by (simp add: bannerRun_def Let_def bannerLoop.simps)

lemma bannerRun_first_pass:
  assumes "Date_now page (wait page 800 w) < Date_now page w + timeout"
  shows "passes (bannerRun page catalog timeout w) \<noteq> []
       \<and> hd (passes (bannerRun page catalog timeout w))
           = fst (scanPatterns page (Date_now page w + timeout)
                    (Date_now page (wait page 800 w)) catalog (wait page 800 w))
       \<and> 0 < attempts (bannerRun page catalog timeout w)
       \<and> (handled (hd (passes (bannerRun page catalog timeout w))) = None \<longrightarrow>
            attempts (bannerRun page catalog timeout w) = 1
            \<and> bannersHandled (bannerRun page catalog timeout w) = 0
            \<and> stopped_by (bannerRun page catalog timeout w) \<noteq> AttemptCap)"
proof -
  define w1 where "w1 = wait page 800 w"
  define maxTime where "maxTime = Date_now page w + timeout"
  obtain tr w2 where sc: "scanPatterns page maxTime (Date_now page w1) catalog w1 = (tr, w2)"
    by (cases "scanPatterns page maxTime (Date_now page w1) catalog w1")
  have run: "bannerRun page catalog timeout w = bannerLoop page catalog maxTime 0 0 [] w1"
    by (simp add: bannerRun_def Let_def w1_def maxTime_def)
  have t: "Date_now page w1 < maxTime" using assms by (simp add: w1_def maxTime_def)
  show ?thesis
  proof (cases "handled tr")
    case None
    have "bannerLoop page catalog maxTime 0 0 [] w1
        = \<lparr>passes = [] @ [tr], bannersHandled = 0, attempts = 0 + 1,
            stopped_by = (if timed_out tr then BudgetExhausted else NoneFound), world = w2\<rparr>"
      using t sc None by (subst bannerLoop.simps) (simp add: maxAttempts_def)
    then show ?thesis using sc None unfolding run w1_def[symmetric] maxTime_def[symmetric]
      by simp
  next
    case (Some p)
    let ?r' = "bannerLoop page catalog maxTime (0 + 1) (0 + 1) ([] @ [tr]) (wait page 500 w2)"
    have r: "bannerLoop page catalog maxTime 0 0 [] w1 = ?r'"
      using t sc Some by (subst bannerLoop.simps) (simp add: maxAttempts_def)
    from bannerLoop_trace[of page catalog maxTime "0 + 1" "0 + 1" "[] @ [tr]" "wait page 500 w2"]
    obtain added where a: "passes ?r' = ([] @ [tr]) @ added"
      "attempts ?r' = (0 + 1) + length added" by blast
    show ?thesis using sc Some a unfolding run w1_def[symmetric] maxTime_def[symmetric] r
      by simp
  qed
qed

text \<open>
  C7, as the code has it. For every page, catalog and time budget the loop of
  \<^verbatim>\<open>handleBanners\<close> ends after at most 5 passes. A pass is started only while the budget
  is not used up (the clock, read in the state in which the pass begins, is before the
  deadline), fewer than 5 passes were made, and every earlier pass handled a banner. The
  loop is left for one of three reasons: the last pass tried the whole catalog and handled
  nothing; the deadline has passed; or 5 passes were made. The deadline is the start time
  plus the budget, taken before the 800 ms settle delay: the loop makes no pass at all
  exactly when the deadline has passed once the delay is over, and then nothing is handled
  and the state is the one the delay left; otherwise the first pass begins at the clock
  reading after the delay. On a page where no selector of the catalog finds an element, in
  any state that these lookups lead to from the state after the delay (the states of which
  \<open>I\<close> holds), and with budget left after the delay, exactly one pass is made and no banner
  is handled.
\<close>

theorem bannerRun_terminal_state:
  fixes page :: "'w Page" and catalog :: "BannerPattern list" and timeout :: int and w :: 'w
    and I :: "'w \<Rightarrow> bool"
  defines "r \<equiv> bannerRun page catalog timeout w"
    and "maxTime \<equiv> Date_now page w + timeout"
    and "entry \<equiv> wait page 800 w"
  shows "attempts r \<le> 5 \<and> length (passes r) = attempts r
    \<and> bannersHandled r = length (filter (\<lambda>t. handled t \<noteq> None) (passes r))
    \<and> (\<forall>i<length (passes r).
          started_at (passes r ! i) = Date_now page (pass_entry page (passes r) entry i)
          \<and> started_at (passes r ! i) < maxTime
          \<and> (Suc i < length (passes r) \<longrightarrow> handled (passes r ! i) \<noteq> None))
    \<and> (stopped_by r = NoneFound \<longrightarrow>
          passes r \<noteq> [] \<and> handled (last (passes r)) = None
          \<and> map fst (tried (last (passes r))) = catalog)
    \<and> (stopped_by r = BudgetExhausted \<longrightarrow> maxTime \<le> Date_now page (world r))
    \<and> (stopped_by r = AttemptCap \<longrightarrow>
          attempts r = 5 \<and> (\<forall>t\<in>set (passes r). handled t \<noteq> None))
    \<and> (attempts r = 0 \<longleftrightarrow> maxTime \<le> Date_now page entry)
    \<and> (maxTime \<le> Date_now page entry \<longrightarrow>
          passes r = [] \<and> bannersHandled r = 0 \<and> stopped_by r = BudgetExhausted
          \<and> world r = entry)
    \<and> (passes r \<noteq> [] \<longrightarrow> started_at (hd (passes r)) = Date_now page entry)
    \<and> (Date_now page entry < maxTime \<and> I entry
        \<and> (\<forall>p\<in>set catalog. \<forall>selector\<in>set (selectors p). \<forall>s. I s \<longrightarrow>
              I (snd (find_element page selector s))
              \<and> (\<forall>el. fst (find_element page selector s) \<noteq> Inr (Some el)))
        \<longrightarrow> attempts r = 1 \<and> bannersHandled r = 0 \<and> stopped_by r \<noteq> AttemptCap)"
proof -
  have r: "r = bannerLoop page catalog maxTime 0 0 [] (wait page 800 w)"
    by (simp add: r_def bannerRun_def Let_def maxTime_def)
  let ?L = "bannerLoop page catalog maxTime 0 0 [] (wait page 800 w)"
  from bannerLoop_trace[of page catalog maxTime 0 0 "[]" "wait page 800 w"]
  obtain added where b: "passes ?L = [] @ added" "attempts ?L = 0 + length added"
    "bannersHandled ?L = 0 + length (filter (\<lambda>t. handled t \<noteq> None) added)"
    "added \<noteq> [] \<longrightarrow> 0 + length added \<le> maxAttempts"
    "\<forall>t\<in>set added. started_at t < maxTime \<and> pass_shape catalog t"
    "\<forall>t\<in>set (butlast added). handled t \<noteq> None"
    "case stopped_by ?L of
          NoneFound \<Rightarrow> added \<noteq> [] \<and> handled (last added) = None \<and> \<not> timed_out (last added)
        | BudgetExhausted \<Rightarrow> maxTime \<le> Date_now page (world ?L)
        | AttemptCap \<Rightarrow> maxAttempts \<le> 0 + length added \<and> (\<forall>t\<in>set added. handled t \<noteq> None)"
    by blast
  have a: "passes r = added" "attempts r = length added"
    "bannersHandled r = length (filter (\<lambda>t. handled t \<noteq> None) added)"
    "added \<noteq> [] \<longrightarrow> length added \<le> maxAttempts"
    "\<forall>t\<in>set added. started_at t < maxTime \<and> pass_shape catalog t"
    "\<forall>t\<in>set (butlast added). handled t \<noteq> None"
    "case stopped_by r of
          NoneFound \<Rightarrow> added \<noteq> [] \<and> handled (last added) = None \<and> \<not> timed_out (last added)
        | BudgetExhausted \<Rightarrow> maxTime \<le> Date_now page (world r)
        | AttemptCap \<Rightarrow> maxAttempts \<le> length added \<and> (\<forall>t\<in>set added. handled t \<noteq> None)"
    using b unfolding r by (simp_all split: StopReason.splits)
  have le: "attempts r \<le> 5" using a(2,4) by (cases added) (auto simp: maxAttempts_def)
  from bannerLoop_states[of page catalog maxTime 0 0 "[]" "wait page 800 w"]
  obtain added' where s: "passes ?L = [] @ added'"
    "\<forall>i<length added'. started_at (added' ! i)
        = Date_now page (replay page (take i added') (wait page 800 w))"
    by blast
  have clock: "\<forall>i<length (passes r).
      started_at (passes r ! i) = Date_now page (pass_entry page (passes r) entry i)"
    using s unfolding r pass_entry_def entry_def by simp
  have mid: "\<forall>i<length (passes r).
          started_at (passes r ! i) = Date_now page (pass_entry page (passes r) entry i)
          \<and> started_at (passes r ! i) < maxTime
          \<and> (Suc i < length (passes r) \<longrightarrow> handled (passes r ! i) \<noteq> None)"
  proof (intro allI impI conjI)
    fix i assume i: "i < length (passes r)"
    then show "started_at (passes r ! i) = Date_now page (pass_entry page (passes r) entry i)"
      using clock by simp
    show "started_at (passes r ! i) < maxTime" using i a(1,5) by auto
    assume "Suc i < length (passes r)"
    then have "passes r ! i \<in> set (butlast added)"
      using a(1) by (metis Suc_lessD length_butlast less_diff_conv nth_butlast nth_mem add.commute plus_1_eq_Suc)
    then show "handled (passes r ! i) \<noteq> None" using a(6) by simp
  qed
  have nf: "stopped_by r = NoneFound \<longrightarrow>
          passes r \<noteq> [] \<and> handled (last (passes r)) = None
          \<and> map fst (tried (last (passes r))) = catalog"
  proof
    assume s: "stopped_by r = NoneFound"
    then have l: "added \<noteq> []" "handled (last added) = None" "\<not> timed_out (last added)"
      using a(7) by simp_all
    then have "pass_shape catalog (last added)" using a(5) by simp
    then have "map fst (tried (last added)) = catalog" using l by (simp add: pass_shape_def)
    then show "passes r \<noteq> [] \<and> handled (last (passes r)) = None
          \<and> map fst (tried (last (passes r))) = catalog" using l a(1) by simp
  qed
  have be: "stopped_by r = BudgetExhausted \<longrightarrow> maxTime \<le> Date_now page (world r)"
    using a(7) by auto
  have ac: "stopped_by r = AttemptCap \<longrightarrow>
          attempts r = 5 \<and> (\<forall>t\<in>set (passes r). handled t \<noteq> None)"
    using a(1,2,7) le by (auto simp: maxAttempts_def)
  have zero: "maxTime \<le> Date_now page entry \<longrightarrow>
          passes r = [] \<and> bannersHandled r = 0 \<and> stopped_by r = BudgetExhausted
          \<and> world r = entry \<and> attempts r = 0"
    using bannerRun_no_pass[of page w timeout catalog]
    by (simp add: r_def maxTime_def entry_def)
  have first: "Date_now page entry < maxTime \<longrightarrow>
          passes r \<noteq> [] \<and> 0 < attempts r
          \<and> hd (passes r) = fst (scanPatterns page maxTime (Date_now page entry) catalog entry)
          \<and> (handled (hd (passes r)) = None \<longrightarrow>
               attempts r = 1 \<and> bannersHandled r = 0 \<and> stopped_by r \<noteq> AttemptCap)"
    using bannerRun_first_pass[of page w timeout catalog]
    by (simp add: r_def maxTime_def entry_def)
  have z: "attempts r = 0 \<longleftrightarrow> maxTime \<le> Date_now page entry"
    using zero first by (cases "maxTime \<le> Date_now page entry") auto
  have st: "passes r \<noteq> [] \<longrightarrow> started_at (hd (passes r)) = Date_now page entry"
  proof
    assume ne: "passes r \<noteq> []"
    then have "Date_now page entry < maxTime" using zero by (cases "maxTime \<le> Date_now page entry") auto
    then have "hd (passes r) = fst (scanPatterns page maxTime (Date_now page entry) catalog entry)"
      using first by simp
    then show "started_at (hd (passes r)) = Date_now page entry"
      using scanPatterns_shape(2)[of page maxTime "Date_now page entry" catalog entry]
      by (cases "scanPatterns page maxTime (Date_now page entry) catalog entry") simp
  qed
  have nm: "Date_now page entry < maxTime \<and> I entry
        \<and> (\<forall>p\<in>set catalog. \<forall>selector\<in>set (selectors p). \<forall>s. I s \<longrightarrow>
              I (snd (find_element page selector s))
              \<and> (\<forall>el. fst (find_element page selector s) \<noteq> Inr (Some el)))
        \<longrightarrow> attempts r = 1 \<and> bannersHandled r = 0 \<and> stopped_by r \<noteq> AttemptCap"
  proof (intro impI)
    assume h: "Date_now page entry < maxTime \<and> I entry
        \<and> (\<forall>p\<in>set catalog. \<forall>selector\<in>set (selectors p). \<forall>s. I s \<longrightarrow>
              I (snd (find_element page selector s))
              \<and> (\<forall>el. fst (find_element page selector s) \<noteq> Inr (Some el)))"
    then have inv: "\<forall>p\<in>set catalog. \<forall>selector\<in>set (selectors p). \<forall>s. I s \<longrightarrow>
              I (snd (find_element page selector s))
              \<and> (\<forall>el. fst (find_element page selector s) \<noteq> Inr (Some el))"
      and ie: "I entry" and t: "Date_now page entry < maxTime" by blast+
    have "handled (fst (scanPatterns page maxTime (Date_now page entry) catalog entry)) = None"
      using scanPatterns_no_element[OF inv ie] .
    then show "attempts r = 1 \<and> bannersHandled r = 0 \<and> stopped_by r \<noteq> AttemptCap"
      using first t by simp
  qed
  have len: "length (passes r) = attempts r" using a(1,2) by simp
  have cnt: "bannersHandled r = length (filter (\<lambda>t. handled t \<noteq> None) (passes r))"
    using a(1,3) by simp
  have zero': "maxTime \<le> Date_now page entry \<longrightarrow>
          passes r = [] \<and> bannersHandled r = 0 \<and> stopped_by r = BudgetExhausted
          \<and> world r = entry"
    using zero by blast
  show ?thesis
    apply (intro conjI)
    subgoal by (rule le)
    subgoal by (rule len)
    subgoal by (rule cnt)
    subgoal by (rule mid)
    subgoal by (rule nf)
    subgoal by (rule be)
    subgoal by (rule ac)
    subgoal by (rule z)
    subgoal by (rule zero')
    subgoal by (rule st)
    subgoal by (rule nm)
    done
qed

text \<open>
  C8. In every pass at most one pattern is handled. The patterns tried are an initial
  stretch of the catalog in its order, so every pass starts from the top; each recorded
  outcome is what \<^verbatim>\<open>handleBannerPattern\<close> returned for that pattern in the state the
  patterns before it left; a handled pattern is the last one tried in its pass, so the
  rest of the catalog is not tried; and the delay awaited after it is its \<^verbatim>\<open>waitAfter\<close>,
  when that is present (and not 0). The state in which the loop is left is the state after
  the settle delay, taken through the passes: in each, the tried patterns handed to
  \<^verbatim>\<open>handleBannerPattern\<close> one after the other, then the \<^verbatim>\<open>waitAfter\<close> delay, then,
  after a pass that handled a banner, the 500 ms delay before the next pass.
\<close>

theorem one_application_per_pass:
  fixes page :: "'w Page" and catalog :: "BannerPattern list" and timeout :: int and w :: 'w
  defines "r \<equiv> bannerRun page catalog timeout w"
  shows "(\<forall>i<length (passes r).
            length (filter snd (tried (passes r ! i))) \<le> 1
          \<and> prefix (map fst (tried (passes r ! i))) catalog
          \<and> (\<forall>j<length (tried (passes r ! i)).
                snd (tried (passes r ! i) ! j)
                  = fst (handleBannerPattern page (fst (tried (passes r ! i) ! j))
                           (after_patterns page (map fst (take j (tried (passes r ! i))))
                              (pass_entry page (passes r) (wait page 800 w) i))))
          \<and> (case handled (passes r ! i) of
                Some p \<Rightarrow> tried (passes r ! i) \<noteq> [] \<and> last (tried (passes r ! i)) = (p, True)
                   \<and> waited (passes r ! i) = (if truthy (waitAfter p) then waitAfter p else None)
              | None \<Rightarrow> (\<forall>x\<in>set (tried (passes r ! i)). \<not> snd x)
                   \<and> waited (passes r ! i) = None))
       \<and> world r = replay page (passes r) (wait page 800 w)"
proof -
  let ?L = "bannerLoop page catalog (Date_now page w + timeout) 0 0 [] (wait page 800 w)"
  have r: "r = ?L" by (simp add: r_def bannerRun_def Let_def)
  from bannerLoop_states[of page catalog "Date_now page w + timeout" 0 0 "[]" "wait page 800 w"]
  obtain added where b: "passes ?L = [] @ added"
    "world ?L = replay page added (wait page 800 w)"
    "\<forall>i<length added. started_at (added ! i)
        = Date_now page (replay page (take i added) (wait page 800 w))"
    "\<forall>i<length added. \<forall>j<length (tried (added ! i)).
           snd (tried (added ! i) ! j)
             = fst (handleBannerPattern page (fst (tried (added ! i) ! j))
                      (after_patterns page (map fst (take j (tried (added ! i))))
                         (replay page (take i added) (wait page 800 w))))"
    by blast
  have p: "passes r = added" using b(1) r by simp
  have wd: "world r = replay page (passes r) (wait page 800 w)" using b(2) p r by simp
  have loc: "length (filter snd (tried (passes r ! i))) \<le> 1
          \<and> prefix (map fst (tried (passes r ! i))) catalog
          \<and> (\<forall>j<length (tried (passes r ! i)).
                snd (tried (passes r ! i) ! j)
                  = fst (handleBannerPattern page (fst (tried (passes r ! i) ! j))
                           (after_patterns page (map fst (take j (tried (passes r ! i))))
                              (pass_entry page (passes r) (wait page 800 w) i))))
          \<and> (case handled (passes r ! i) of
                Some p \<Rightarrow> tried (passes r ! i) \<noteq> [] \<and> last (tried (passes r ! i)) = (p, True)
                   \<and> waited (passes r ! i) = (if truthy (waitAfter p) then waitAfter p else None)
              | None \<Rightarrow> (\<forall>x\<in>set (tried (passes r ! i)). \<not> snd x)
                   \<and> waited (passes r ! i) = None)"
    if i: "i < length (passes r)" for i
  proof -
    have "passes r ! i \<in> set (passes (bannerRun page catalog timeout w))"
      using i by (simp add: r_def)
    then have sh: "pass_shape catalog (passes r ! i)" by (rule bannerRun_pass_shape)
    then have one: "length (filter snd (tried (passes r ! i))) \<le> 1"
      by (intro one_success_at_most) (simp add: pass_shape_def)
    have hon: "\<forall>j<length (tried (passes r ! i)).
                snd (tried (passes r ! i) ! j)
                  = fst (handleBannerPattern page (fst (tried (passes r ! i) ! j))
                           (after_patterns page (map fst (take j (tried (passes r ! i))))
                              (pass_entry page (passes r) (wait page 800 w) i)))"
      using b(4) i unfolding p pass_entry_def by simp
    show ?thesis using one hon sh by (auto simp: pass_shape_def split: option.splits)
  qed
  show ?thesis using loc wd by blast
qed

lemma catalog_names_eq: "map name COMMON_BANNER_PATTERNS = catalog_names"
  by code_simp

lemma catalog_groups:
  "map spec_group catalog_names =
     [AgeVerification, CookieConsent, CookieConsent, CookieConsent, AgeVerification,
      CookieConsent, GenericOverlay, GenericOverlay, GenericOverlay]"
  by code_simp

lemma sorted_wrt_prefix:
  assumes "prefix ys xs" "sorted_wrt R xs"
  shows "sorted_wrt R ys"
proof -
  from assms(1) obtain zs where "xs = ys @ zs" by (auto simp: prefix_def)
  then show ?thesis using assms(2) by (simp add: sorted_wrt_append)
qed

text \<open>
  C3, as the code has it. In every pass the patterns tried are an initial stretch of the
  catalog in its fixed order: Adult Site Age Verification, Cookie Accept All, German
  Cookie Accept, Cookie OK/Agree, Age Verification - 18+, YouTube Cookie Accept, Modal
  Close, GDPR Accept, Newsletter Close. So the adult-site age verification is tried
  first, and every age-verification and cookie-consent pattern is tried before any modal,
  GDPR or newsletter pattern; the second age-verification pattern comes after three
  cookie-consent patterns.
\<close>

theorem catalog_scan_order:
  "\<forall>t\<in>set (passes (bannerRun page COMMON_BANNER_PATTERNS timeout w)).
      prefix (map (\<lambda>x. name (fst x)) (tried t)) catalog_names
    \<and> sorted_wrt (\<lambda>a b. \<not> (a = GenericOverlay \<and> b \<noteq> GenericOverlay))
        (map (\<lambda>x. spec_group (name (fst x))) (tried t))
    \<and> (tried t \<noteq> [] \<longrightarrow> name (fst (hd (tried t))) = ''Adult Site Age Verification'')"
proof
  fix t assume t: "t \<in> set (passes (bannerRun page COMMON_BANNER_PATTERNS timeout w))"
  let ?names = "map (\<lambda>x. name (fst x)) (tried t)"
  have "prefix (map fst (tried t)) COMMON_BANNER_PATTERNS"
    using bannerRun_pass_shape[OF t] by (simp add: pass_shape_def)
  then have "prefix (map name (map fst (tried t))) (map name COMMON_BANNER_PATTERNS)"
    by (rule map_mono_prefix)
  then have p: "prefix ?names catalog_names"
    by (simp add: catalog_names_eq comp_def)
  then have "prefix (map spec_group ?names) (map spec_group catalog_names)"
    by (rule map_mono_prefix)
  moreover have "sorted_wrt (\<lambda>a b. \<not> (a = GenericOverlay \<and> b \<noteq> GenericOverlay))
      (map spec_group catalog_names)"
    by (simp add: catalog_groups)
  ultimately have s: "sorted_wrt (\<lambda>a b. \<not> (a = GenericOverlay \<and> b \<noteq> GenericOverlay))
      (map spec_group ?names)"
    by (rule sorted_wrt_prefix)
  have h: "tried t \<noteq> [] \<longrightarrow> name (fst (hd (tried t))) = ''Adult Site Age Verification''"
  proof
    assume ne: "tried t \<noteq> []"
    then obtain x xs where x: "tried t = x # xs" by (cases "tried t") auto
    then have "prefix (name (fst x) # map (\<lambda>x. name (fst x)) xs) catalog_names" using p by simp
    then show "name (fst (hd (tried t))) = ''Adult Site Age Verification''"
      using x by (simp add: catalog_names_def)
  qed
  show "prefix ?names catalog_names
    \<and> sorted_wrt (\<lambda>a b. \<not> (a = GenericOverlay \<and> b \<noteq> GenericOverlay))
        (map (\<lambda>x. spec_group (name (fst x))) (tried t))
    \<and> (tried t \<noteq> [] \<longrightarrow> name (fst (hd (tried t))) = ''Adult Site Age Verification'')"
    using p s h by (simp add: comp_def)
qed


section \<open>The orchestrator\<close>

lemma regular_in_try_steps:
  "\<exists>more. snd (regular_in_try page f q fp d steps w) = steps @ more \<and> more \<noteq> []
      \<and> set more \<subseteq> {RegularScreenshot True, RegularScreenshot False}
      \<and> (case fst (regular_in_try page f q fp d steps w) of
            Inr r \<Rightarrow> image r \<noteq> None \<and> thumbnailUrl r = None
          | Inl e \<Rightarrow> last more = RegularScreenshot False)
      \<and> (plain_capture_total page \<longrightarrow> (\<exists>r. fst (regular_in_try page f q fp d steps w) = Inr r))"
proof -
  obtain a w1 where s1: "takeRegularScreenshot page f q fp w = (a, w1)"
    by (cases "takeRegularScreenshot page f q fp w")
  obtain b w2 where s2: "takeRegularScreenshot page f q fp w1 = (b, w2)"
    by (cases "takeRegularScreenshot page f q fp w1")
  have tot: "\<exists>bytes. a = Inr bytes" if "plain_capture_total page"
  proof -
    let ?args = "\<lparr>arg_type = f, arg_fullPage = Some fp,
        arg_quality = (if f = jpeg then Some q else None), arg_clip = None\<rparr>"
    have "arg_clip ?args = None" by simp
    then have "\<exists>bytes. fst (screenshot page ?args w) = Inr bytes"
      using that unfolding plain_capture_total_def by blast
    then show ?thesis using s1 by (simp add: takeRegularScreenshot_def)
  qed
  show ?thesis
  proof (cases a)
    case (Inr img)
    then show ?thesis using s1
      by (intro exI[of _ "[RegularScreenshot True]"])
         (simp add: regular_in_try_def image_result_def)
  next
    case (Inl e)
    show ?thesis
    proof (cases b)
      case (Inr img)
      then show ?thesis using s1 s2 Inl tot
        by (intro exI[of _ "[RegularScreenshot False, RegularScreenshot True]"])
           (auto simp: regular_in_try_def image_result_def)
    next
      case (Inl e2)
      then show ?thesis using s1 s2 \<open>a = Inl e\<close> tot
        by (intro exI[of _ "[RegularScreenshot False, RegularScreenshot False]"])
           (auto simp: regular_in_try_def image_result_def)
    qed
  qed
qed

lemma crop_or_regular_steps:
  "\<exists>ok more. snd (crop_or_regular page f q fp d steps w) = steps @ RegionCrop ok # more
      \<and> set more \<subseteq> {RegularScreenshot True, RegularScreenshot False}
      \<and> (case fst (crop_or_regular page f q fp d steps w) of
            Inr r \<Rightarrow> image r \<noteq> None \<and> thumbnailUrl r = None
          | Inl e \<Rightarrow> more \<noteq> [] \<and> last more = RegularScreenshot False)
      \<and> (plain_capture_total page \<longrightarrow> (\<exists>r. fst (crop_or_regular page f q fp d steps w) = Inr r))"
proof -
  obtain c w1 where cr: "detectVideoRegionAndCrop page w = (c, w1)"
    by (cases "detectVideoRegionAndCrop page w")
  show ?thesis
  proof (cases c)
    case (Some img)
    then show ?thesis using cr
      by (intro exI[of _ True] exI[of _ "[]"]) (simp add: crop_or_regular_def image_result_def)
  next
    case None
    from regular_in_try_steps[of page f q fp d "steps @ [RegionCrop False]" w1]
    obtain more where m: "snd (regular_in_try page f q fp d (steps @ [RegionCrop False]) w1)
          = (steps @ [RegionCrop False]) @ more" "more \<noteq> []"
      "set more \<subseteq> {RegularScreenshot True, RegularScreenshot False}"
      "case fst (regular_in_try page f q fp d (steps @ [RegionCrop False]) w1) of
            Inr r \<Rightarrow> image r \<noteq> None \<and> thumbnailUrl r = None
          | Inl e \<Rightarrow> last more = RegularScreenshot False"
      "plain_capture_total page \<longrightarrow>
         (\<exists>r. fst (regular_in_try page f q fp d (steps @ [RegionCrop False]) w1) = Inr r)"
      by blast
    have eq: "crop_or_regular page f q fp d steps w
        = regular_in_try page f q fp d (steps @ [RegionCrop False]) w1"
      using cr None by (simp add: crop_or_regular_def)
    show ?thesis
      unfolding eq using m
      by (intro exI[of _ False] exI[of _ more]) (auto split: sum.splits)
  qed
qed

lemma capture_with_detection_steps:
  fixes page :: "'w Page" and w :: 'w and f :: ImageFormat and q :: int and fp :: bool
  defines "d \<equiv> detectVideoThumbnail page w"
  defines "c \<equiv> capture_with_detection page f q fp w"
  shows "(case thumbnail d of
            Some t \<Rightarrow>
              if shouldReturnUrlDirectly t
              then c = (Inr \<lparr>image = None, thumbnailUrl = Some (url t), isVideoThumbnail = True,
                              videoDetectionResult = Some d\<rparr>, [ReturnedUrl])
              else (\<exists>ok more. snd c = FetchThumbnail (url t) ok # more \<and> ReturnedUrl \<notin> set more)
          | None \<Rightarrow>
              if hasVideo d
              then (\<exists>ok more. snd c = RegionCrop ok # more
                      \<and> set more \<subseteq> {RegularScreenshot True, RegularScreenshot False})
              else snd c \<noteq> [] \<and> set (snd c) \<subseteq> {RegularScreenshot True, RegularScreenshot False})
       \<and> one_variant (fst c)
       \<and> ((\<exists>e. fst c = Inl e) \<longrightarrow> snd c \<noteq> [] \<and> last (snd c) = RegularScreenshot False)
       \<and> (plain_capture_total page \<longrightarrow> (\<exists>r. fst c = Inr r))"
proof (cases "thumbnail d")
  case None
  show ?thesis
  proof (cases "hasVideo d")
    case True
    have c: "c = crop_or_regular page f q fp d [] w"
      using None True by (simp add: c_def d_def capture_with_detection_def Let_def)
    from crop_or_regular_steps[of page f q fp d "[]" w]
    obtain ok more where m: "snd (crop_or_regular page f q fp d [] w) = [] @ RegionCrop ok # more"
      "set more \<subseteq> {RegularScreenshot True, RegularScreenshot False}"
      "case fst (crop_or_regular page f q fp d [] w) of
            Inr r \<Rightarrow> image r \<noteq> None \<and> thumbnailUrl r = None
          | Inl e \<Rightarrow> more \<noteq> [] \<and> last more = RegularScreenshot False"
      "plain_capture_total page \<longrightarrow> (\<exists>r. fst (crop_or_regular page f q fp d [] w) = Inr r)"
      by blast
    show ?thesis
      using None True m unfolding c
      by (auto simp: one_variant_def split: sum.splits)
  next
    case False
    have c: "c = regular_in_try page f q fp d [] w"
      using None False by (simp add: c_def d_def capture_with_detection_def Let_def)
    from regular_in_try_steps[of page f q fp d "[]" w]
    obtain more where m: "snd (regular_in_try page f q fp d [] w) = [] @ more" "more \<noteq> []"
      "set more \<subseteq> {RegularScreenshot True, RegularScreenshot False}"
      "case fst (regular_in_try page f q fp d [] w) of
            Inr r \<Rightarrow> image r \<noteq> None \<and> thumbnailUrl r = None
          | Inl e \<Rightarrow> last more = RegularScreenshot False"
      "plain_capture_total page \<longrightarrow> (\<exists>r. fst (regular_in_try page f q fp d [] w) = Inr r)"
      by blast
    show ?thesis
      using None False m unfolding c
      by (auto simp: one_variant_def split: sum.splits)
  qed
next
  case (Some t)
  show ?thesis
  proof (cases "shouldReturnUrlDirectly t")
    case True
    then have "c = (Inr \<lparr>image = None, thumbnailUrl = Some (url t), isVideoThumbnail = True,
                              videoDetectionResult = Some d\<rparr>, [ReturnedUrl])"
      using Some by (simp add: c_def d_def capture_with_detection_def Let_def)
    then show ?thesis using Some True by (simp add: one_variant_def)
  next
    case False
    show ?thesis
    proof (cases "fetch_bytes page (url t) w")
      case (Inr response)
      then have "c = (Inr (image_result response True (Some d)), [FetchThumbnail (url t) True])"
        using Some False by (simp add: c_def d_def capture_with_detection_def Let_def)
      then show ?thesis using Some False by (auto simp: one_variant_def image_result_def)
    next
      case (Inl e)
      then have c: "c = crop_or_regular page f q fp d [FetchThumbnail (url t) False] w"
        using Some False by (simp add: c_def d_def capture_with_detection_def Let_def)
      from crop_or_regular_steps[of page f q fp d "[FetchThumbnail (url t) False]" w]
      obtain ok more where m:
        "snd (crop_or_regular page f q fp d [FetchThumbnail (url t) False] w)
           = [FetchThumbnail (url t) False] @ RegionCrop ok # more"
        "set more \<subseteq> {RegularScreenshot True, RegularScreenshot False}"
        "case fst (crop_or_regular page f q fp d [FetchThumbnail (url t) False] w) of
            Inr r \<Rightarrow> image r \<noteq> None \<and> thumbnailUrl r = None
          | Inl e \<Rightarrow> more \<noteq> [] \<and> last more = RegularScreenshot False"
        "plain_capture_total page \<longrightarrow>
           (\<exists>r. fst (crop_or_regular page f q fp d [FetchThumbnail (url t) False] w) = Inr r)"
        by blast
      show ?thesis
        using Some False m unfolding c
        by (auto simp: one_variant_def split: sum.splits)
    qed
  qed
qed

lemma takeIntelligentScreenshot_unfold:
  "takeIntelligentScreenshot page target options =
     (let c = (case prepare_page page target options of
                 Inl e \<Rightarrow> (Inl e, [])
               | Inr w \<Rightarrow>
                   if default_to True (opt_detectVideoThumbnails options)
                   then capture_with_detection page (default_to png (opt_format options))
                          (default_to 80 (opt_quality options))
                          (default_to False (opt_fullPage options)) w
                   else (case takeRegularScreenshot page (default_to png (opt_format options))
                          (default_to 80 (opt_quality options))
                          (default_to False (opt_fullPage options)) w of
                           (Inr finalImage, w') \<Rightarrow>
                             (Inr (image_result finalImage False None), [RegularScreenshot True])
                         | (Inl e, w') \<Rightarrow> (Inl e, [RegularScreenshot False])))
      in (case fst c of
            Inl e \<Rightarrow> Inl (Error (''Intelligent screenshot failed: '' @ message e))
          | Inr r \<Rightarrow> Inr r, snd c))"
  by (simp add: takeIntelligentScreenshot_def Let_def split: prod.splits sum.splits)

lemma hasVideo_iff:
  "hasVideo (detectVideoThumbnail page w) \<longleftrightarrow>
     (\<exists>raw entries. extractCandidates page w = Inr (raw, entries)
        \<and> (raw \<noteq> [] \<or> detectVideoPresence page w = Inr True))"
proof (cases "extractCandidates page w")
  case (Inl a)
  then show ?thesis by (cases a) (simp add: detectVideoThumbnail_def detection_failed_def)
next
  case (Inr b)
  obtain raw entries where b: "b = (raw, entries)" by (cases b)
  show ?thesis
  proof (cases "raw = []")
    case False
    then show ?thesis using Inr b
      by (simp add: detectVideoThumbnail_def Let_def split_beta)
  next
    case True
    then show ?thesis using Inr b
      by (cases "detectVideoPresence page w")
         (simp_all add: detectVideoThumbnail_def Let_def split_beta detection_failed_def)
  qed
qed

lemma detectVideoPresence_iff:
  "detectVideoPresence page w = Inr True \<longleftrightarrow>
     (\<exists>q. count_matches page w = Inr q
        \<and> (0 < q ''video'' \<or> list_ex (\<lambda>selector. 0 < q selector) videoIndicators))"
  by (cases "count_matches page w") (auto simp: detectVideoPresence_def)

lemma takeIntelligentScreenshot_detecting:
  assumes "prepare_page page target options = Inr w"
    and "default_to True (opt_detectVideoThumbnails options)"
  shows "takeIntelligentScreenshot page target options =
     (let c = capture_with_detection page (default_to png (opt_format options))
                          (default_to 80 (opt_quality options))
                          (default_to False (opt_fullPage options)) w
      in (case fst c of
            Inl e \<Rightarrow> Inl (Error (''Intelligent screenshot failed: '' @ message e))
          | Inr r \<Rightarrow> Inr r, snd c))"
  using assms by (simp add: takeIntelligentScreenshot_unfold)

lemma takeIntelligentScreenshot_not_detecting:
  assumes "prepare_page page target options = Inr w"
    and "\<not> default_to True (opt_detectVideoThumbnails options)"
  shows "snd (takeIntelligentScreenshot page target options) = [RegularScreenshot True]
       \<or> snd (takeIntelligentScreenshot page target options) = [RegularScreenshot False]"
proof -
  obtain a w1 where s: "takeRegularScreenshot page (default_to png (opt_format options))
      (default_to 80 (opt_quality options)) (default_to False (opt_fullPage options)) w = (a, w1)"
    by (cases "takeRegularScreenshot page (default_to png (opt_format options))
      (default_to 80 (opt_quality options)) (default_to False (opt_fullPage options)) w")
  show ?thesis
    using assms s by (cases a) (simp_all add: takeIntelligentScreenshot_unfold)
qed

text \<open>
  C2, as the code has it. When no candidate is selected, the region crop is attempted
  exactly when detection is enabled and its result has \<^verbatim>\<open>hasVideo\<close>; that holds
  exactly when the six strategies ran without error and either produced a raw candidate
  (also one that validation rejected) or \<^verbatim>\<open>detectVideoPresence\<close> found a video
  element or a match of one of its eight indicator selectors. Otherwise the orchestrator
  goes straight to the regular screenshot.
\<close>

theorem crop_attempted_iff_hasVideo:
  assumes "prepare_page page target options = Inr w"
    and "default_to True (opt_detectVideoThumbnails options) \<longrightarrow>
           thumbnail (detectVideoThumbnail page w) = None"
  shows "((\<exists>ok. RegionCrop ok \<in> set (snd (takeIntelligentScreenshot page target options)))
            \<longleftrightarrow> default_to True (opt_detectVideoThumbnails options)
                 \<and> hasVideo (detectVideoThumbnail page w))
       \<and> (hasVideo (detectVideoThumbnail page w) \<longleftrightarrow>
            (\<exists>raw entries. extractCandidates page w = Inr (raw, entries)
               \<and> (raw \<noteq> [] \<or> detectVideoPresence page w = Inr True)))
       \<and> (detectVideoPresence page w = Inr True \<longleftrightarrow>
            (\<exists>q. count_matches page w = Inr q
               \<and> (0 < q ''video'' \<or> list_ex (\<lambda>selector. 0 < q selector) videoIndicators)))
       \<and> (\<not> (default_to True (opt_detectVideoThumbnails options)
               \<and> hasVideo (detectVideoThumbnail page w)) \<longrightarrow>
            snd (takeIntelligentScreenshot page target options) \<noteq> []
            \<and> set (snd (takeIntelligentScreenshot page target options))
                 \<subseteq> {RegularScreenshot True, RegularScreenshot False})"
proof (cases "default_to True (opt_detectVideoThumbnails options)")
  case False
  from takeIntelligentScreenshot_not_detecting[OF assms(1) False]
  have "(\<forall>ok. RegionCrop ok \<notin> set (snd (takeIntelligentScreenshot page target options)))
      \<and> snd (takeIntelligentScreenshot page target options) \<noteq> []
      \<and> set (snd (takeIntelligentScreenshot page target options))
                 \<subseteq> {RegularScreenshot True, RegularScreenshot False}"
    by auto
  then show ?thesis
    using False hasVideo_iff[of page w] detectVideoPresence_iff[of page w] by blast
next
  case True
  then have none: "thumbnail (detectVideoThumbnail page w) = None" using assms(2) by simp
  let ?c = "capture_with_detection page (default_to png (opt_format options))
                          (default_to 80 (opt_quality options))
                          (default_to False (opt_fullPage options)) w"
  have st: "snd (takeIntelligentScreenshot page target options) = snd ?c"
    using takeIntelligentScreenshot_detecting[OF assms(1) True] by (simp add: Let_def)
  from capture_with_detection_steps[of page w "default_to png (opt_format options)"
      "default_to 80 (opt_quality options)" "default_to False (opt_fullPage options)"] none
  have k: "if hasVideo (detectVideoThumbnail page w)
              then (\<exists>ok more. snd ?c = RegionCrop ok # more
                      \<and> set more \<subseteq> {RegularScreenshot True, RegularScreenshot False})
              else snd ?c \<noteq> [] \<and> set (snd ?c) \<subseteq> {RegularScreenshot True, RegularScreenshot False}"
    by simp
  have a: "(\<exists>ok. RegionCrop ok \<in> set (snd ?c)) \<longleftrightarrow> hasVideo (detectVideoThumbnail page w)"
    using k by (cases "hasVideo (detectVideoThumbnail page w)") auto
  have b: "\<not> hasVideo (detectVideoThumbnail page w) \<longrightarrow>
            snd ?c \<noteq> [] \<and> set (snd ?c) \<subseteq> {RegularScreenshot True, RegularScreenshot False}"
    using k by simp
  show ?thesis
    unfolding st using True a b hasVideo_iff[of page w] detectVideoPresence_iff[of page w]
    by blast
qed

lemma shouldReturnUrlDirectly_iff:
  "shouldReturnUrlDirectly t \<longleftrightarrow> spec_direct_url t \<or> includes_str (url t) ''thumbnail_url''"
  by (auto simp: shouldReturnUrlDirectly_def spec_direct_url_def)

text \<open>
  C4, as the code has it. With a candidate selected, the orchestrator returns the
  candidate's URL without fetching exactly when the specification's rule holds of the
  candidate or its URL contains \<^verbatim>\<open>thumbnail_url\<close>; in every other case its first call is
  the fetch of the candidate's bytes.
\<close>

theorem direct_url_decision:
  assumes "prepare_page page target options = Inr w"
    and "default_to True (opt_detectVideoThumbnails options)"
    and "thumbnail (detectVideoThumbnail page w) = Some t"
  shows "(takeIntelligentScreenshot page target options
            = (Inr \<lparr>image = None, thumbnailUrl = Some (url t), isVideoThumbnail = True,
                    videoDetectionResult = Some (detectVideoThumbnail page w)\<rparr>, [ReturnedUrl])
          \<longleftrightarrow> spec_direct_url t \<or> includes_str (url t) ''thumbnail_url'')
       \<and> (\<not> (spec_direct_url t \<or> includes_str (url t) ''thumbnail_url'') \<longrightarrow>
            (\<exists>ok more. snd (takeIntelligentScreenshot page target options)
                          = FetchThumbnail (url t) ok # more))"
proof -
  let ?c = "capture_with_detection page (default_to png (opt_format options))
                          (default_to 80 (opt_quality options))
                          (default_to False (opt_fullPage options)) w"
  have tk: "takeIntelligentScreenshot page target options =
      (case fst ?c of
            Inl e \<Rightarrow> Inl (Error (''Intelligent screenshot failed: '' @ message e))
          | Inr r \<Rightarrow> Inr r, snd ?c)"
    using takeIntelligentScreenshot_detecting[OF assms(1,2)] by (simp add: Let_def)
  from capture_with_detection_steps[of page w "default_to png (opt_format options)"
      "default_to 80 (opt_quality options)" "default_to False (opt_fullPage options)"] assms(3)
  have k: "if shouldReturnUrlDirectly t
              then ?c = (Inr \<lparr>image = None, thumbnailUrl = Some (url t), isVideoThumbnail = True,
                              videoDetectionResult = Some (detectVideoThumbnail page w)\<rparr>,
                         [ReturnedUrl])
              else (\<exists>ok more. snd ?c = FetchThumbnail (url t) ok # more \<and> ReturnedUrl \<notin> set more)"
    by simp
  show ?thesis
  proof (cases "shouldReturnUrlDirectly t")
    case True
    then have "?c = (Inr \<lparr>image = None, thumbnailUrl = Some (url t), isVideoThumbnail = True,
                              videoDetectionResult = Some (detectVideoThumbnail page w)\<rparr>,
                         [ReturnedUrl])" using k by simp
    then show ?thesis using True tk by (simp add: shouldReturnUrlDirectly_iff)
  next
    case False
    then obtain ok more where "snd ?c = FetchThumbnail (url t) ok # more" using k by auto
    then show ?thesis using False tk by (auto simp: shouldReturnUrlDirectly_iff)
  qed
qed

lemma regular_in_try_failure:
  "((\<exists>e. fst (regular_in_try page f q fp d steps w) = Inl e) \<longleftrightarrow>
      snd (regular_in_try page f q fp d steps w)
        = steps @ [RegularScreenshot False, RegularScreenshot False])
   \<and> ((\<exists>e. fst (regular_in_try page f q fp d steps w) = Inl e) \<longleftrightarrow>
      last (snd (regular_in_try page f q fp d steps w)) = RegularScreenshot False)
   \<and> snd (regular_in_try page f q fp d steps w) \<noteq> []
   \<and> (\<forall>e. fst (regular_in_try page f q fp d steps w) = Inl e \<longrightarrow>
         (\<exists>w'. fst (takeRegularScreenshot page f q fp w') = Inl e))"
proof -
  obtain a w1 where s1: "takeRegularScreenshot page f q fp w = (a, w1)"
    by (cases "takeRegularScreenshot page f q fp w")
  obtain b w2 where s2: "takeRegularScreenshot page f q fp w1 = (b, w2)"
    by (cases "takeRegularScreenshot page f q fp w1")
  show ?thesis
  proof (cases a)
    case (Inr img)
    then show ?thesis using s1 by (simp add: regular_in_try_def)
  next
    case (Inl e)
    show ?thesis
    proof (cases b)
      case (Inr img)
      then show ?thesis using s1 s2 Inl by (simp add: regular_in_try_def)
    next
      case (Inl e2)
      have "fst (takeRegularScreenshot page f q fp w1) = Inl e2" using s2 Inl by simp
      then have "\<exists>w'. fst (takeRegularScreenshot page f q fp w') = Inl e2" by blast
      then show ?thesis using s1 s2 \<open>a = Inl e\<close> Inl
        by (simp add: regular_in_try_def)
    qed
  qed
qed

lemma crop_or_regular_failure:
  "((\<exists>e. fst (crop_or_regular page f q fp d steps w) = Inl e) \<longleftrightarrow>
      snd (crop_or_regular page f q fp d steps w)
        = steps @ [RegionCrop False, RegularScreenshot False, RegularScreenshot False])
   \<and> ((\<exists>e. fst (crop_or_regular page f q fp d steps w) = Inl e) \<longleftrightarrow>
      last (snd (crop_or_regular page f q fp d steps w)) = RegularScreenshot False)
   \<and> snd (crop_or_regular page f q fp d steps w) \<noteq> []
   \<and> (\<forall>e. fst (crop_or_regular page f q fp d steps w) = Inl e \<longrightarrow>
         (\<exists>w'. fst (takeRegularScreenshot page f q fp w') = Inl e))"
proof -
  obtain c w1 where cr: "detectVideoRegionAndCrop page w = (c, w1)"
    by (cases "detectVideoRegionAndCrop page w")
  show ?thesis
  proof (cases c)
    case (Some img)
    then show ?thesis using cr by (simp add: crop_or_regular_def)
  next
    case None
    have eq: "crop_or_regular page f q fp d steps w
        = regular_in_try page f q fp d (steps @ [RegionCrop False]) w1"
      using cr None by (simp add: crop_or_regular_def)
    have ap: "(steps @ [RegionCrop False]) @ [RegularScreenshot False, RegularScreenshot False]
        = steps @ [RegionCrop False, RegularScreenshot False, RegularScreenshot False]"
      by simp
    show ?thesis
      unfolding eq
      using regular_in_try_failure[of page f q fp d "steps @ [RegionCrop False]" w1]
      unfolding ap by blast
  qed
qed

lemma capture_with_detection_failure:
  fixes page :: "'w Page" and w :: 'w and f :: ImageFormat and q :: int and fp :: bool
  defines "c \<equiv> capture_with_detection page f q fp w"
  shows "((\<exists>e. fst c = Inl e) \<longleftrightarrow>
            (\<exists>pre. snd c = pre @ [RegularScreenshot False, RegularScreenshot False]))
       \<and> ((\<exists>e. fst c = Inl e) \<longleftrightarrow> last (snd c) = RegularScreenshot False)
       \<and> snd c \<noteq> []
       \<and> (\<forall>e. fst c = Inl e \<longrightarrow> (\<exists>w'. fst (takeRegularScreenshot page f q fp w') = Inl e))"
proof -
  define d where "d = detectVideoThumbnail page w"
  have reg: "?thesis" if "c = regular_in_try page f q fp d steps w" for steps
    unfolding that using regular_in_try_failure[of page f q fp d steps w] by auto
  have crop: "?thesis" if "c = crop_or_regular page f q fp d steps w" for steps
  proof -
    note k = crop_or_regular_failure[of page f q fp d steps w]
    have "steps @ [RegionCrop False, RegularScreenshot False, RegularScreenshot False]
        = (steps @ [RegionCrop False]) @ [RegularScreenshot False, RegularScreenshot False]"
      by simp
    moreover have "snd (crop_or_regular page f q fp d steps w)
        = pre @ [RegularScreenshot False, RegularScreenshot False]
      \<Longrightarrow> last (snd (crop_or_regular page f q fp d steps w)) = RegularScreenshot False" for pre
      by simp
    ultimately show ?thesis unfolding that using k by metis
  qed
  show ?thesis
  proof (cases "thumbnail d")
    case None
    show ?thesis
    proof (cases "hasVideo d")
      case True
      then show ?thesis using None
        by (intro crop[of "[]"]) (simp add: c_def d_def capture_with_detection_def Let_def)
    next
      case False
      then show ?thesis using None
        by (intro reg[of "[]"]) (simp add: c_def d_def capture_with_detection_def Let_def)
    qed
  next
    case (Some t)
    show ?thesis
    proof (cases "shouldReturnUrlDirectly t")
      case True
      then have "c = (Inr \<lparr>image = None, thumbnailUrl = Some (url t), isVideoThumbnail = True,
                              videoDetectionResult = Some d\<rparr>, [ReturnedUrl])"
        using Some by (simp add: c_def d_def capture_with_detection_def Let_def)
      then show ?thesis by simp
    next
      case False
      show ?thesis
      proof (cases "fetch_bytes page (url t) w")
        case (Inr response)
        then have "c = (Inr (image_result response True (Some d)), [FetchThumbnail (url t) True])"
          using Some False by (simp add: c_def d_def capture_with_detection_def Let_def)
        then show ?thesis by simp
      next
        case (Inl e)
        then show ?thesis using Some False
          by (intro crop[of "[FetchThumbnail (url t) False]"])
             (simp add: c_def d_def capture_with_detection_def Let_def)
      qed
    qed
  qed
qed

text \<open>
  C9, as the code has it. Whatever the page does, a result that
  \<^verbatim>\<open>takeIntelligentScreenshot\<close> returns has exactly one of image and thumbnail URL. An
  error leaves the function exactly when the page could not be opened and loaded, or when
  the regular screenshot, the last fallback, rejected: with detection on, in the detection
  block and again in its \<^verbatim>\<open>catch\<close>; with detection off, once. The error thrown carries
  the message of that failure, whatever it is; the connection to the page need not be
  lost. So on a page that was opened and whose regular screenshot does not reject, every
  failure of extraction, validation, fetch and crop ends in a result.
\<close>

theorem orchestrator_result:
  fixes page :: "'w Page" and target :: string and options :: ScreenshotOptions
  defines "res \<equiv> fst (takeIntelligentScreenshot page target options)"
    and "steps \<equiv> snd (takeIntelligentScreenshot page target options)"
    and "format \<equiv> default_to png (opt_format options)"
    and "quality \<equiv> default_to 80 (opt_quality options)"
    and "fullPage \<equiv> default_to False (opt_fullPage options)"
  shows "one_variant res
   \<and> ((\<exists>e. res = Inl e) \<longleftrightarrow>
        (\<exists>e0. prepare_page page target options = Inl e0)
        \<or> (steps \<noteq> [] \<and> last steps = RegularScreenshot False))
   \<and> ((\<exists>w. prepare_page page target options = Inr w) \<and> plain_capture_total page \<longrightarrow>
        (\<exists>r. res = Inr r))
   \<and> ((\<exists>e0. prepare_page page target options = Inl e0) \<longleftrightarrow>
        (\<exists>e0. open_page page target
                 (default_to 1920 (opt_width options), default_to 1080 (opt_height options),
                  default_to 30000 (opt_timeout options),
                  default_to domcontentloaded (opt_waitUntil options)) = Inl e0))
   \<and> (\<forall>e. res = Inl e \<longrightarrow>
        (\<exists>e0. e = Error (''Intelligent screenshot failed: '' @ message e0)
           \<and> (prepare_page page target options = Inl e0
               \<or> (\<exists>w'. fst (takeRegularScreenshot page format quality fullPage w') = Inl e0))))
   \<and> ((\<exists>e. res = Inl e) \<and> (\<exists>w. prepare_page page target options = Inr w) \<longrightarrow>
        (if default_to True (opt_detectVideoThumbnails options)
         then \<exists>pre. steps = pre @ [RegularScreenshot False, RegularScreenshot False]
         else steps = [RegularScreenshot False]))"
proof -
  have open_iff: "(\<exists>e0. prepare_page page target options = Inl e0) \<longleftrightarrow>
        (\<exists>e0. open_page page target
                 (default_to 1920 (opt_width options), default_to 1080 (opt_height options),
                  default_to 30000 (opt_timeout options),
                  default_to domcontentloaded (opt_waitUntil options)) = Inl e0)"
    by (auto simp: prepare_page_def Let_def split: sum.splits)
  have main: "one_variant res
   \<and> ((\<exists>e. res = Inl e) \<longleftrightarrow>
        (\<exists>e0. prepare_page page target options = Inl e0)
        \<or> (steps \<noteq> [] \<and> last steps = RegularScreenshot False))
   \<and> ((\<exists>w. prepare_page page target options = Inr w) \<and> plain_capture_total page \<longrightarrow>
        (\<exists>r. res = Inr r))
   \<and> (\<forall>e. res = Inl e \<longrightarrow>
        (\<exists>e0. e = Error (''Intelligent screenshot failed: '' @ message e0)
           \<and> (prepare_page page target options = Inl e0
               \<or> (\<exists>w'. fst (takeRegularScreenshot page format quality fullPage w') = Inl e0))))
   \<and> ((\<exists>e. res = Inl e) \<and> (\<exists>w. prepare_page page target options = Inr w) \<longrightarrow>
        (if default_to True (opt_detectVideoThumbnails options)
         then \<exists>pre. steps = pre @ [RegularScreenshot False, RegularScreenshot False]
         else steps = [RegularScreenshot False]))"
  proof (cases "prepare_page page target options")
    case (Inl e0)
    then show ?thesis
      by (auto simp: res_def steps_def takeIntelligentScreenshot_unfold one_variant_def)
  next
    case (Inr w)
    show ?thesis
    proof (cases "default_to True (opt_detectVideoThumbnails options)")
      case True
      let ?c = "capture_with_detection page format quality fullPage w"
      have tk: "takeIntelligentScreenshot page target options =
        (case fst ?c of
            Inl e \<Rightarrow> Inl (Error (''Intelligent screenshot failed: '' @ message e))
          | Inr r \<Rightarrow> Inr r, snd ?c)"
        using takeIntelligentScreenshot_detecting[OF Inr True]
        by (simp add: Let_def format_def quality_def fullPage_def)
      from capture_with_detection_steps[of page w format quality fullPage]
      have k: "one_variant (fst ?c)"
        "plain_capture_total page \<longrightarrow> (\<exists>r. fst ?c = Inr r)" by simp_all
      note m = capture_with_detection_failure[of page format quality fullPage w]
      show ?thesis
      proof (cases "fst ?c")
        case (Inl e)
        have r: "res = Inl (Error (''Intelligent screenshot failed: '' @ message e))"
          "steps = snd ?c" using Inl by (simp_all add: res_def steps_def tk)
        have l: "last (snd ?c) = RegularScreenshot False" "snd ?c \<noteq> []"
          "\<exists>pre. snd ?c = pre @ [RegularScreenshot False, RegularScreenshot False]"
          "\<exists>w'. fst (takeRegularScreenshot page format quality fullPage w') = Inl e"
          using m Inl by blast+
        show ?thesis using r l k True Inr Inl by (auto simp: one_variant_def)
      next
        case (Inr r0)
        have r: "res = Inr r0" "steps = snd ?c" using Inr by (simp_all add: res_def steps_def tk)
        have l: "last (snd ?c) \<noteq> RegularScreenshot False" using m Inr by auto
        show ?thesis using r l k(1) Inr \<open>prepare_page page target options = Inr w\<close>
          by (auto simp: one_variant_def)
      qed
    next
      case False
      obtain a w1 where s: "takeRegularScreenshot page format quality fullPage w = (a, w1)"
        by (cases "takeRegularScreenshot page format quality fullPage w")
      have tot: "\<exists>bytes. a = Inr bytes" if "plain_capture_total page"
      proof -
        let ?args = "\<lparr>arg_type = format, arg_fullPage = Some fullPage,
          arg_quality = (if format = jpeg then Some quality else None), arg_clip = None\<rparr>"
        have "arg_clip ?args = None" by simp
        then have "\<exists>bytes. fst (screenshot page ?args w) = Inr bytes"
          using that unfolding plain_capture_total_def by blast
        then show ?thesis using s by (simp add: takeRegularScreenshot_def)
      qed
      show ?thesis
      proof (cases a)
        case (Inl e)
        have "fst (takeRegularScreenshot page format quality fullPage w) = Inl e"
          using s Inl by simp
        then have ex: "\<exists>w'. fst (takeRegularScreenshot page format quality fullPage w') = Inl e"
          by blast
        have r: "res = Inl (Error (''Intelligent screenshot failed: '' @ message e))"
          "steps = [RegularScreenshot False]"
          using Inr False s Inl
          by (simp_all add: res_def steps_def takeIntelligentScreenshot_unfold
                format_def quality_def fullPage_def)
        show ?thesis using r ex tot Inl False Inr by (auto simp: one_variant_def)
      next
        case (Inr bytes)
        have r: "res = Inr (image_result bytes False None)" "steps = [RegularScreenshot True]"
          using \<open>prepare_page page target options = Inr w\<close> False s Inr
          by (simp_all add: res_def steps_def takeIntelligentScreenshot_unfold
                format_def quality_def fullPage_def)
        show ?thesis using r \<open>prepare_page page target options = Inr w\<close>
          by (auto simp: one_variant_def image_result_def)
      qed
    qed
  qed
  show ?thesis using main open_iff by blast
qed

section \<open>The definitions at concrete inputs\<close>

theorem selectBestCandidate_first_maximal_witness:
  "demo_cands \<noteq> [] \<and> fst (selectBestCandidate demo_cands) = Some (demo_cands ! 1)
   \<and> (\<exists>i<length demo_cands. fst (selectBestCandidate demo_cands) = Some (demo_cands ! i)
        \<and> (\<forall>j<length demo_cands. confidence (demo_cands ! j) \<le> confidence (demo_cands ! i))
        \<and> (\<forall>j<i. confidence (demo_cands ! j) < confidence (demo_cands ! i)))"
proof -
  have ne: "demo_cands \<noteq> []" by (simp add: demo_cands_def)
  have best: "fst (selectBestCandidate demo_cands) = Some (demo_cands ! 1)" by code_simp
  show ?thesis using ne best selectBestCandidate_first_maximal[of demo_cands] by blast
qed

theorem final_confidence_spec_witness:
  "validateCandidate (demo_page video_site) (start_world video_site)
      (og_candidate ''https://example.com/a.jpg'')
     = Some ((og_candidate ''https://example.com/a.jpg'')
              \<lparr>width := Some 1280, height := Some 720,
               aspectRatio := Some (js_div 1280 720), confidence := 1\<rparr>)
   \<and> is_double (confidence (og_candidate ''https://example.com/a.jpg''))
   \<and> confidence (og_candidate ''https://example.com/a.jpg'') \<le> 1
   \<and> spec_final_confidence (confidence (og_candidate ''https://example.com/a.jpg'')) 1280 720
        (source (og_candidate ''https://example.com/a.jpg'')) = 1"
proof -
  let ?c = "og_candidate ''https://example.com/a.jpg''"
  let ?c' = "?c\<lparr>width := Some 1280, height := Some 720,
               aspectRatio := Some (js_div 1280 720), confidence := 1\<rparr>"
  have v: "validateCandidate (demo_page video_site) (start_world video_site) ?c = Some ?c'"
    by code_simp
  have a: "aspectRatio ?c = None" by (simp add: og_candidate_def)
  have d: "is_double (confidence ?c)" by code_simp
  have l: "confidence ?c \<le> 1" by code_simp
  from final_confidence_spec[OF v a d l] have
    "spec_final_confidence (confidence ?c) 1280 720 (source ?c) = 1" by simp
  then show ?thesis using v d l by simp
qed

text \<open>
  C1. A candidate whose image fails to load is measured as 0 by 0, and
  \<^verbatim>\<open>validateAndScoreCandidates\<close> returns it: \<^verbatim>\<open>isValidThumbnail\<close> compares a dimension
  with the minimum only when the dimension is truthy, and 0 is not.
\<close>

theorem zero_size_candidate_is_validated:
  "image_dimensions (demo_page broken_image_site) ''https://example.com/missing.jpg''
      (start_world broken_image_site) = Inr (0, 0)
   \<and> validateAndScoreCandidates (demo_page broken_image_site) (start_world broken_image_site)
        [og_candidate ''https://example.com/missing.jpg'']
     = [(og_candidate ''https://example.com/missing.jpg'')\<lparr>width := Some 0, height := Some 0\<rparr>]
   \<and> thumbnail (detectVideoThumbnail (demo_page broken_image_site)
                   (start_world broken_image_site))
     = Some ((og_candidate ''https://example.com/missing.jpg'')
               \<lparr>width := Some 0, height := Some 0\<rparr>)"
  by code_simp

text \<open>
  C7 as stated fails for a budget of 500 ms on a page without banners: the settle delay
  uses up the budget and the loop makes no pass.
\<close>

theorem zero_budget_zero_passes:
  "overlays (start_world plain_site) = []
   \<and> attempts (bannerRun (demo_page plain_site) COMMON_BANNER_PATTERNS 500
                 (start_world plain_site)) = 0
   \<and> attempts (bannerRun (demo_page plain_site) COMMON_BANNER_PATTERNS 500
                 (start_world plain_site)) \<noteq> 1"
  by code_simp

lemma catalog_selectors_miss_heading:
  "\<forall>p\<in>set COMMON_BANNER_PATTERNS. \<forall>selector\<in>set (selectors p).
    selector \<noteq> ''h1''
    \<and> (case match_contains selector of
          Some (b, t, s) \<Rightarrow> b @ s \<noteq> ''h1'' | None \<Rightarrow> True)"
  by code_simp

theorem bannerRun_terminal_state_witness:
  "Date_now (demo_page article_site) (wait (demo_page article_site) 800 (start_world article_site))
     < Date_now (demo_page article_site) (start_world article_site) + 5000
   \<and> overlays (wait (demo_page article_site) 800 (start_world article_site))
       = [(''h1'', ''Welcome'')]
   \<and> attempts (bannerRun (demo_page article_site) COMMON_BANNER_PATTERNS 5000
                 (start_world article_site)) = 1
   \<and> bannersHandled (bannerRun (demo_page article_site) COMMON_BANNER_PATTERNS 5000
                        (start_world article_site)) = 0
   \<and> stopped_by (bannerRun (demo_page article_site) COMMON_BANNER_PATTERNS 5000
                    (start_world article_site)) = NoneFound
   \<and> map fst (tried (last (passes (bannerRun (demo_page article_site) COMMON_BANNER_PATTERNS
                                     5000 (start_world article_site)))))
       = COMMON_BANNER_PATTERNS
   \<and> started_at (hd (passes (bannerRun (demo_page article_site) COMMON_BANNER_PATTERNS 5000
                                (start_world article_site)))) = 800
   \<and> stopped_by (bannerRun (demo_page sticky_site) COMMON_BANNER_PATTERNS 50000
                    (start_world sticky_site)) = AttemptCap
   \<and> attempts (bannerRun (demo_page sticky_site) COMMON_BANNER_PATTERNS 50000
                  (start_world sticky_site)) = 5
   \<and> Date_now (demo_page plain_site) (start_world plain_site) + 500
        \<le> Date_now (demo_page plain_site)
             (wait (demo_page plain_site) 800 (start_world plain_site))
   \<and> passes (bannerRun (demo_page plain_site) COMMON_BANNER_PATTERNS 500
               (start_world plain_site)) = []
   \<and> stopped_by (bannerRun (demo_page plain_site) COMMON_BANNER_PATTERNS 500
                    (start_world plain_site)) = BudgetExhausted"
proof -
  let ?page = "demo_page article_site"
  let ?w = "start_world article_site"
  let ?I = "\<lambda>s. overlays s = [(''h1'', ''Welcome'')]"
  let ?r1 = "bannerRun ?page COMMON_BANNER_PATTERNS 5000 ?w"
  let ?r2 = "bannerRun (demo_page sticky_site) COMMON_BANNER_PATTERNS 50000
               (start_world sticky_site)"
  let ?plain = "demo_page plain_site"
  let ?v = "start_world plain_site"
  let ?r3 = "bannerRun ?plain COMMON_BANNER_PATTERNS 500 ?v"
  have t: "Date_now ?page (wait ?page 800 ?w) < Date_now ?page ?w + 5000"
    by (simp add: demo_page_def start_world_def)
  have c: "Date_now ?page (wait ?page 800 ?w) = 800"
    by (simp add: demo_page_def start_world_def)
  have e: "overlays (wait ?page 800 ?w) = [(''h1'', ''Welcome'')]"
    by code_simp
  have inv: "\<forall>p\<in>set COMMON_BANNER_PATTERNS. \<forall>selector\<in>set (selectors p).
        \<forall>s. overlays s = [(''h1'', ''Welcome'')] \<longrightarrow>
         overlays (snd (find_element ?page selector s)) = [(''h1'', ''Welcome'')]
         \<and> (\<forall>el. fst (find_element ?page selector s) \<noteq> Inr (Some el))"
  proof (intro ballI allI impI)
    fix p selector and s :: DemoWorld
    assume p: "p \<in> set COMMON_BANNER_PATTERNS" and sel: "selector \<in> set (selectors p)"
      and s: "overlays s = [(''h1'', ''Welcome'')]"
    from catalog_selectors_miss_heading p sel have ok: "selector \<noteq> ''h1''"
      "case match_contains selector of Some (b, t, s) \<Rightarrow> b @ s \<noteq> ''h1'' | None \<Rightarrow> True"
      by blast+
    show "overlays (snd (find_element ?page selector s)) = [(''h1'', ''Welcome'')]
         \<and> (\<forall>el. fst (find_element ?page selector s) \<noteq> Inr (Some el))"
      using ok s by (auto simp: find_element_def demo_page_def tick_def split: option.splits)
  qed
  have u: "Date_now ?plain ?v + 500 \<le> Date_now ?plain (wait ?plain 800 ?v)"
    by (simp add: demo_page_def start_world_def)
  have s1: "stopped_by ?r1 = NoneFound" by code_simp
  have s2: "stopped_by ?r2 = AttemptCap" by code_simp
  note T1 = bannerRun_terminal_state[of ?page COMMON_BANNER_PATTERNS 5000 ?w ?I]
  note T2 = bannerRun_terminal_state[of "demo_page sticky_site" COMMON_BANNER_PATTERNS 50000
        "start_world sticky_site" ?I]
  note T3 = bannerRun_terminal_state[of ?plain COMMON_BANNER_PATTERNS 500 ?v ?I]
  have a1: "attempts ?r1 = 1 \<and> bannersHandled ?r1 = 0"
    using T1 t e inv by blast
  have a2: "passes ?r1 \<noteq> [] \<and> map fst (tried (last (passes ?r1))) = COMMON_BANNER_PATTERNS"
    using T1 s1 by blast
  then have a5: "started_at (hd (passes ?r1)) = 800"
    using T1 c by simp
  have a3: "attempts ?r2 = 5" using T2 s2 by blast
  have a4: "passes ?r3 = [] \<and> stopped_by ?r3 = BudgetExhausted"
    using T3 u by blast
  show ?thesis using t e a1 s1 a2 a5 s2 a3 u a4 by blast
qed

theorem one_application_per_pass_witness:
  "length (passes (bannerRun (demo_page cookie_site) COMMON_BANNER_PATTERNS 5000
                     (start_world cookie_site))) = 2
   \<and> map (\<lambda>x. (name (fst x), snd x))
        (tried (passes (bannerRun (demo_page cookie_site) COMMON_BANNER_PATTERNS 5000
                          (start_world cookie_site)) ! 0))
      = [(''Adult Site Age Verification'', False), (''Cookie Accept All'', True)]
   \<and> waited (passes (bannerRun (demo_page cookie_site) COMMON_BANNER_PATTERNS 5000
                        (start_world cookie_site)) ! 0) = Some 1000
   \<and> length (filter snd
        (tried (passes (bannerRun (demo_page cookie_site) COMMON_BANNER_PATTERNS 5000
                          (start_world cookie_site)) ! 0))) \<le> 1
   \<and> prefix (map fst
        (tried (passes (bannerRun (demo_page cookie_site) COMMON_BANNER_PATTERNS 5000
                          (start_world cookie_site)) ! 0))) COMMON_BANNER_PATTERNS
   \<and> fst (handleBannerPattern (demo_page cookie_site)
            (fst (tried (passes (bannerRun (demo_page cookie_site) COMMON_BANNER_PATTERNS 5000
                                   (start_world cookie_site)) ! 0) ! 1))
            (after_patterns (demo_page cookie_site)
               (map fst (take 1 (tried (passes (bannerRun (demo_page cookie_site)
                                   COMMON_BANNER_PATTERNS 5000 (start_world cookie_site)) ! 0))))
               (pass_entry (demo_page cookie_site)
                  (passes (bannerRun (demo_page cookie_site) COMMON_BANNER_PATTERNS 5000
                             (start_world cookie_site)))
                  (wait (demo_page cookie_site) 800 (start_world cookie_site)) 0)))
   \<and> world (bannerRun (demo_page cookie_site) COMMON_BANNER_PATTERNS 5000
              (start_world cookie_site))
      = replay (demo_page cookie_site)
          (passes (bannerRun (demo_page cookie_site) COMMON_BANNER_PATTERNS 5000
                     (start_world cookie_site)))
          (wait (demo_page cookie_site) 800 (start_world cookie_site))
   \<and> overlays (start_world cookie_site) = [(''button'', ''Accept all cookies'')]
   \<and> overlays (replay (demo_page cookie_site)
          (passes (bannerRun (demo_page cookie_site) COMMON_BANNER_PATTERNS 5000
                     (start_world cookie_site)))
          (wait (demo_page cookie_site) 800 (start_world cookie_site))) = []
   \<and> clock (replay (demo_page cookie_site)
          (passes (bannerRun (demo_page cookie_site) COMMON_BANNER_PATTERNS 5000
                     (start_world cookie_site)))
          (wait (demo_page cookie_site) 800 (start_world cookie_site))) = 2653"
proof -
  let ?page = "demo_page cookie_site"
  let ?w = "start_world cookie_site"
  let ?r = "bannerRun ?page COMMON_BANNER_PATTERNS 5000 ?w"
  have len: "length (passes ?r) = 2" by code_simp
  have tr: "map (\<lambda>x. (name (fst x), snd x)) (tried (passes ?r ! 0))
      = [(''Adult Site Age Verification'', False), (''Cookie Accept All'', True)]" by code_simp
  have wt: "waited (passes ?r ! 0) = Some 1000" by code_simp
  have o0: "overlays ?w = [(''button'', ''Accept all cookies'')]" by code_simp
  have o1: "overlays (replay ?page (passes ?r) (wait ?page 800 ?w)) = []
    \<and> clock (replay ?page (passes ?r) (wait ?page 800 ?w)) = 2653" by code_simp
  have i: "0 < length (passes ?r)" using len by simp
  have j: "1 < length (tried (passes ?r ! 0))"
  proof -
    have "length (map (\<lambda>x. (name (fst x), snd x)) (tried (passes ?r ! 0))) = 2"
      by (simp only: tr) simp
    then show ?thesis by simp
  qed
  have s: "snd (tried (passes ?r ! 0) ! 1)"
  proof -
    have "map (\<lambda>x. (name (fst x), snd x)) (tried (passes ?r ! 0)) ! 1 = (''Cookie Accept All'', True)"
      by (simp only: tr) simp
    then show ?thesis using j by simp
  qed
  note T = one_application_per_pass[of ?page COMMON_BANNER_PATTERNS 5000 ?w]
  have w: "world ?r = replay ?page (passes ?r) (wait ?page 800 ?w)" using T by blast
  have p0: "length (filter snd (tried (passes ?r ! 0))) \<le> 1
          \<and> prefix (map fst (tried (passes ?r ! 0))) COMMON_BANNER_PATTERNS
          \<and> (\<forall>j<length (tried (passes ?r ! 0)).
                snd (tried (passes ?r ! 0) ! j)
                  = fst (handleBannerPattern ?page (fst (tried (passes ?r ! 0) ! j))
                           (after_patterns ?page (map fst (take j (tried (passes ?r ! 0))))
                              (pass_entry ?page (passes ?r) (wait ?page 800 ?w) 0))))"
    using T i by blast
  then have h: "fst (handleBannerPattern ?page (fst (tried (passes ?r ! 0) ! 1))
                           (after_patterns ?page (map fst (take 1 (tried (passes ?r ! 0))))
                              (pass_entry ?page (passes ?r) (wait ?page 800 ?w) 0)))"
    using j s by blast
  show ?thesis using len tr wt p0 h w o0 o1 by blast
qed

theorem catalog_scan_order_witness:
  "passes (bannerRun (demo_page plain_site) COMMON_BANNER_PATTERNS 5000 (start_world plain_site))
     \<noteq> []
   \<and> tried (hd (passes (bannerRun (demo_page plain_site) COMMON_BANNER_PATTERNS 5000
                          (start_world plain_site)))) \<noteq> []
   \<and> prefix (map (\<lambda>x. name (fst x))
       (tried (hd (passes (bannerRun (demo_page plain_site) COMMON_BANNER_PATTERNS 5000
                             (start_world plain_site)))))) catalog_names
   \<and> name (fst (hd (tried (hd (passes (bannerRun (demo_page plain_site) COMMON_BANNER_PATTERNS
                                          5000 (start_world plain_site)))))))
       = ''Adult Site Age Verification''"
proof -
  let ?r = "bannerRun (demo_page plain_site) COMMON_BANNER_PATTERNS 5000 (start_world plain_site)"
  have ne: "passes ?r \<noteq> []" by code_simp
  then have m: "hd (passes ?r) \<in> set (passes ?r)" by simp
  have tr: "tried (hd (passes ?r)) \<noteq> []" by code_simp
  show ?thesis
    using catalog_scan_order[of "demo_page plain_site" 5000 "start_world plain_site"] m ne tr
    by blast
qed

text \<open>
  C3 as stated fails on a page without banners: the pass tries the nine patterns in
  catalog order, and the cookie-consent pattern Cookie Accept All comes before the
  age-verification pattern Age Verification - 18+.
\<close>

theorem age_verification_after_cookie_consent:
  "map name (map fst
     (tried (hd (passes (bannerRun (demo_page plain_site) COMMON_BANNER_PATTERNS 5000
                           (start_world plain_site)))))) = catalog_names
   \<and> catalog_names ! 1 = ''Cookie Accept All''
   \<and> spec_group (catalog_names ! 1) = CookieConsent
   \<and> catalog_names ! 4 = ''Age Verification - 18+''
   \<and> spec_group (catalog_names ! 4) = AgeVerification
   \<and> \<not> spec_priority_order
        (map fst (tried (hd (passes (bannerRun (demo_page plain_site) COMMON_BANNER_PATTERNS 5000
                                       (start_world plain_site))))))"
  by code_simp

text \<open>
  C4 as stated fails: a \<^verbatim>\<open>twitter:image\<close> candidate of confidence 0.7 whose URL has
  \<^verbatim>\<open>thumbnail_url\<close> in its path meets none of the conditions of the specification, and
  its URL is returned without a fetch.
\<close>

theorem thumbnail_url_in_path_returns_url:
  "prepare_page (demo_page thumb_url_site) ''https://example.com'' quiet_options
     = Inr \<lparr>clock = 1000, overlays = [], sticky = False\<rparr>
   \<and> thumbnail (detectVideoThumbnail (demo_page thumb_url_site)
                   \<lparr>clock = 1000, overlays = [], sticky = False\<rparr>)
     = Some ((twitter_candidate ''https://example.com/thumbnail_url/pic.jpg'')
               \<lparr>width := Some 600, height := Some 300, aspectRatio := Some 2\<rparr>)
   \<and> \<not> spec_direct_url ((twitter_candidate ''https://example.com/thumbnail_url/pic.jpg'')
               \<lparr>width := Some 600, height := Some 300, aspectRatio := Some 2\<rparr>)
   \<and> takeIntelligentScreenshot (demo_page thumb_url_site) ''https://example.com'' quiet_options
     = (Inr \<lparr>image = None,
             thumbnailUrl = Some ''https://example.com/thumbnail_url/pic.jpg'',
             isVideoThumbnail = True,
             videoDetectionResult =
               Some (detectVideoThumbnail (demo_page thumb_url_site)
                       \<lparr>clock = 1000, overlays = [], sticky = False\<rparr>)\<rparr>,
        [ReturnedUrl])"
  by code_simp

text \<open>
  C2 as stated fails: on a page with no video element and no iframe whose only candidate
  (a logo) is rejected, the region crop is attempted.
\<close>

theorem crop_attempted_without_video_or_iframe:
  "prepare_page (demo_page logo_site) ''https://example.com'' quiet_options
     = Inr \<lparr>clock = 1000, overlays = [], sticky = False\<rparr>
   \<and> thumbnail (detectVideoThumbnail (demo_page logo_site)
                   \<lparr>clock = 1000, overlays = [], sticky = False\<rparr>) = None
   \<and> \<not> spec_video_presence_on (demo_page logo_site)
          \<lparr>clock = 1000, overlays = [], sticky = False\<rparr>
   \<and> snd (takeIntelligentScreenshot (demo_page logo_site) ''https://example.com'' quiet_options)
     = [RegionCrop False, RegularScreenshot True]"
  by code_simp

theorem crop_attempted_iff_hasVideo_witness:
  "prepare_page (demo_page logo_site) ''https://example.com'' quiet_options
     = Inr \<lparr>clock = 1000, overlays = [], sticky = False\<rparr>
   \<and> default_to True (opt_detectVideoThumbnails quiet_options)
   \<and> thumbnail (detectVideoThumbnail (demo_page logo_site)
                   \<lparr>clock = 1000, overlays = [], sticky = False\<rparr>) = None
   \<and> hasVideo (detectVideoThumbnail (demo_page logo_site)
                  \<lparr>clock = 1000, overlays = [], sticky = False\<rparr>)
   \<and> (\<exists>ok. RegionCrop ok
          \<in> set (snd (takeIntelligentScreenshot (demo_page logo_site) ''https://example.com''
                           quiet_options)))
   \<and> \<not> hasVideo (detectVideoThumbnail (demo_page plain_site)
                  \<lparr>clock = 1000, overlays = [], sticky = False\<rparr>)
   \<and> set (snd (takeIntelligentScreenshot (demo_page plain_site) ''https://example.com''
                    quiet_options))
        \<subseteq> {RegularScreenshot True, RegularScreenshot False}"
proof -
  let ?w = "\<lparr>clock = 1000, overlays = [], sticky = False\<rparr>"
  have p: "prepare_page (demo_page logo_site) ''https://example.com'' quiet_options = Inr ?w"
    by code_simp
  have e: "default_to True (opt_detectVideoThumbnails quiet_options)" by code_simp
  have n: "thumbnail (detectVideoThumbnail (demo_page logo_site) ?w) = None" by code_simp
  have h: "hasVideo (detectVideoThumbnail (demo_page logo_site) ?w)" by code_simp
  have p2: "prepare_page (demo_page plain_site) ''https://example.com'' quiet_options = Inr ?w"
    by code_simp
  have n2: "thumbnail (detectVideoThumbnail (demo_page plain_site) ?w) = None" by code_simp
  have h2: "\<not> hasVideo (detectVideoThumbnail (demo_page plain_site) ?w)" by code_simp
  have a: "\<exists>ok. RegionCrop ok
          \<in> set (snd (takeIntelligentScreenshot (demo_page logo_site) ''https://example.com''
                           quiet_options))"
    using crop_attempted_iff_hasVideo[OF p] e n h by blast
  have b: "set (snd (takeIntelligentScreenshot (demo_page plain_site) ''https://example.com''
                    quiet_options))
        \<subseteq> {RegularScreenshot True, RegularScreenshot False}"
    using crop_attempted_iff_hasVideo[OF p2] n2 h2 by blast
  show ?thesis using p e n h a h2 b by blast
qed

theorem direct_url_decision_witness:
  "prepare_page (demo_page fallback_site) ''https://example.com'' quiet_options
     = Inr \<lparr>clock = 1000, overlays = [], sticky = False\<rparr>
   \<and> default_to True (opt_detectVideoThumbnails quiet_options)
   \<and> thumbnail (detectVideoThumbnail (demo_page fallback_site)
                   \<lparr>clock = 1000, overlays = [], sticky = False\<rparr>)
     = Some ((twitter_candidate ''https://example.com/pic.jpg'')
               \<lparr>width := Some 600, height := Some 300, aspectRatio := Some 2\<rparr>)
   \<and> \<not> (spec_direct_url ((twitter_candidate ''https://example.com/pic.jpg'')
               \<lparr>width := Some 600, height := Some 300, aspectRatio := Some 2\<rparr>)
          \<or> includes_str (url ((twitter_candidate ''https://example.com/pic.jpg'')
               \<lparr>width := Some 600, height := Some 300, aspectRatio := Some 2\<rparr>))
               ''thumbnail_url'')
   \<and> (\<exists>ok more. snd (takeIntelligentScreenshot (demo_page fallback_site)
                         ''https://example.com'' quiet_options)
                   = FetchThumbnail ''https://example.com/pic.jpg'' ok # more)
   \<and> snd (takeIntelligentScreenshot (demo_page video_site) ''https://example.com'' quiet_options)
       = [ReturnedUrl]"
proof -
  let ?w = "\<lparr>clock = 1000, overlays = [], sticky = False\<rparr>"
  let ?t = "(twitter_candidate ''https://example.com/pic.jpg'')
               \<lparr>width := Some 600, height := Some 300, aspectRatio := Some 2\<rparr>"
  let ?v = "(og_candidate ''https://example.com/a.jpg'')
              \<lparr>width := Some 1280, height := Some 720,
               aspectRatio := Some (js_div 1280 720), confidence := 1\<rparr>"
  have p: "prepare_page (demo_page fallback_site) ''https://example.com'' quiet_options = Inr ?w"
    by code_simp
  have e: "default_to True (opt_detectVideoThumbnails quiet_options)" by code_simp
  have t: "thumbnail (detectVideoThumbnail (demo_page fallback_site) ?w) = Some ?t" by code_simp
  have n: "\<not> (spec_direct_url ?t \<or> includes_str (url ?t) ''thumbnail_url'')" by code_simp
  have u: "url ?t = ''https://example.com/pic.jpg''" by code_simp
  have a: "\<exists>ok more. snd (takeIntelligentScreenshot (demo_page fallback_site)
                         ''https://example.com'' quiet_options)
                   = FetchThumbnail ''https://example.com/pic.jpg'' ok # more"
    using direct_url_decision[OF p e t] n u by simp
  have p2: "prepare_page (demo_page video_site) ''https://example.com'' quiet_options = Inr ?w"
    by code_simp
  have t2: "thumbnail (detectVideoThumbnail (demo_page video_site) ?w) = Some ?v" by code_simp
  have y: "spec_direct_url ?v" by code_simp
  have b: "snd (takeIntelligentScreenshot (demo_page video_site) ''https://example.com''
                  quiet_options) = [ReturnedUrl]"
    using direct_url_decision[OF p2 e t2] y by simp
  show ?thesis using p e t n a b by blast
qed

text \<open>
  C9 as stated fails: on a page too tall for a full-page capture the regular screenshot
  rejects, in the detection block and again in its \<^verbatim>\<open>catch\<close>, and the error is thrown on,
  although the page was opened, still answers (its metadata can be read and its viewport
  captured), and the message is none that the code takes for a lost connection.
\<close>

theorem full_page_capture_rejection_propagates:
  "prepare_page tall_page ''https://example.com'' full_page_options
     = Inr \<lparr>clock = 1000, overlays = [], sticky = False\<rparr>
   \<and> takeIntelligentScreenshot tall_page ''https://example.com'' full_page_options
     = (Inl (Error ''Intelligent screenshot failed: Page is too large''),
        [RegularScreenshot False, RegularScreenshot False])
   \<and> \<not> browser_connection_lost (Error ''Page is too large'')
   \<and> eval_metadata tall_page \<lparr>clock = 1002, overlays = [], sticky = False\<rparr> = Inr []
   \<and> fst (takeRegularScreenshot tall_page png 80 False
            \<lparr>clock = 1002, overlays = [], sticky = False\<rparr>) = Inr [1, 2, 3]"
  by code_simp

theorem orchestrator_result_witness:
  "plain_capture_total (demo_page fallback_site)
   \<and> prepare_page (demo_page fallback_site) ''https://example.com'' quiet_options
       = Inr \<lparr>clock = 1000, overlays = [], sticky = False\<rparr>
   \<and> snd (takeIntelligentScreenshot (demo_page fallback_site) ''https://example.com'' quiet_options)
       = [FetchThumbnail ''https://example.com/pic.jpg'' False, RegionCrop False,
          RegularScreenshot True]
   \<and> (\<exists>r. fst (takeIntelligentScreenshot (demo_page fallback_site) ''https://example.com''
                    quiet_options) = Inr r)
   \<and> one_variant (fst (takeIntelligentScreenshot (demo_page fallback_site)
                          ''https://example.com'' quiet_options))
   \<and> (\<exists>e. fst (takeIntelligentScreenshot
                    (demo_page (plain_site\<lparr>site_reachable := False\<rparr>)) ''https://example.com''
                    quiet_options) = Inl e)
   \<and> (\<exists>e0. prepare_page (demo_page (plain_site\<lparr>site_reachable := False\<rparr>))
                ''https://example.com'' quiet_options = Inl e0)
   \<and> prepare_page tall_page ''https://example.com'' full_page_options
       = Inr \<lparr>clock = 1000, overlays = [], sticky = False\<rparr>
   \<and> default_to True (opt_detectVideoThumbnails full_page_options)
   \<and> last (snd (takeIntelligentScreenshot tall_page ''https://example.com'' full_page_options))
       = RegularScreenshot False
   \<and> (\<exists>e. fst (takeIntelligentScreenshot tall_page ''https://example.com'' full_page_options)
             = Inl e)
   \<and> (\<exists>pre. snd (takeIntelligentScreenshot tall_page ''https://example.com'' full_page_options)
               = pre @ [RegularScreenshot False, RegularScreenshot False])"
proof -
  let ?w = "\<lparr>clock = 1000, overlays = [], sticky = False\<rparr>"
  let ?down = "demo_page (plain_site\<lparr>site_reachable := False\<rparr>)"
  have tot: "plain_capture_total (demo_page fallback_site)"
    by (simp add: plain_capture_total_def demo_page_def fallback_site_def plain_site_def)
  have p: "prepare_page (demo_page fallback_site) ''https://example.com'' quiet_options = Inr ?w"
    by code_simp
  have s: "snd (takeIntelligentScreenshot (demo_page fallback_site) ''https://example.com''
                  quiet_options)
       = [FetchThumbnail ''https://example.com/pic.jpg'' False, RegionCrop False,
          RegularScreenshot True]" by code_simp
  have d: "fst (takeIntelligentScreenshot ?down ''https://example.com'' quiet_options)
      = Inl (Error ''Intelligent screenshot failed: net::ERR_NAME_NOT_RESOLVED'')" by code_simp
  have ds: "snd (takeIntelligentScreenshot ?down ''https://example.com'' quiet_options) = []"
    by code_simp
  have tp: "prepare_page tall_page ''https://example.com'' full_page_options = Inr ?w"
    by code_simp
  have te: "default_to True (opt_detectVideoThumbnails full_page_options)" by code_simp
  have tl: "snd (takeIntelligentScreenshot tall_page ''https://example.com'' full_page_options)
      \<noteq> []
    \<and> last (snd (takeIntelligentScreenshot tall_page ''https://example.com'' full_page_options))
       = RegularScreenshot False" by code_simp
  note T = orchestrator_result[of "demo_page fallback_site" "''https://example.com''" quiet_options]
  note D = orchestrator_result[of ?down "''https://example.com''" quiet_options]
  note L = orchestrator_result[of tall_page "''https://example.com''" full_page_options]
  have a: "\<exists>r. fst (takeIntelligentScreenshot (demo_page fallback_site) ''https://example.com''
                    quiet_options) = Inr r" using T tot p by blast
  have b: "one_variant (fst (takeIntelligentScreenshot (demo_page fallback_site)
                          ''https://example.com'' quiet_options))" using T by blast
  have c: "\<exists>e0. prepare_page ?down ''https://example.com'' quiet_options = Inl e0"
    using D d ds by auto
  have f: "\<exists>e. fst (takeIntelligentScreenshot tall_page ''https://example.com''
                       full_page_options) = Inl e"
    using L tl by blast
  have g: "\<exists>pre. snd (takeIntelligentScreenshot tall_page ''https://example.com''
                         full_page_options)
               = pre @ [RegularScreenshot False, RegularScreenshot False]"
    using L f tp te by (simp split: if_splits)
  show ?thesis using tot p s a b c d tp te tl f g by blast
qed

theorem detection_candidates_sorted_witness:
  "map url (validateAndScoreCandidates (demo_page two_image_site) (start_world two_image_site)
              (site_metadata two_image_site))
     = [''https://example.com/small.jpg'', ''https://example.com/large.jpg'']
   \<and> map url (candidates (detectVideoThumbnail (demo_page two_image_site)
                             (start_world two_image_site)))
     = [''https://example.com/large.jpg'', ''https://example.com/small.jpg'']
   \<and> sorted_wrt (\<lambda>a b. confidence b \<le> confidence a)
        (candidates (detectVideoThumbnail (demo_page two_image_site)
                       (start_world two_image_site)))"
proof -
  have a: "map url (validateAndScoreCandidates (demo_page two_image_site)
              (start_world two_image_site) (site_metadata two_image_site))
     = [''https://example.com/small.jpg'', ''https://example.com/large.jpg'']" by code_simp
  have b: "map url (candidates (detectVideoThumbnail (demo_page two_image_site)
                             (start_world two_image_site)))
     = [''https://example.com/large.jpg'', ''https://example.com/small.jpg'']" by code_simp
  show ?thesis
    using a b detection_candidates_sorted[of "demo_page two_image_site"
        "start_world two_image_site"] by blast
qed

end
